theory Spec2Isabelle
  imports Complex_Main
begin

section \<open>Strings of the export engine\<close>

text \<open>
  A JavaScript string is modelled as a \<^typ>\<open>string\<close>, one \<^typ>\<open>char\<close> per code unit
  (code units up to 0xFF). The functions below are the \<open>String.prototype\<close> methods the
  exporters call, with the arguments they are called with.
\<close>

definition isWhiteSpace :: "char \<Rightarrow> bool" where
  \<comment> \<open>what \<open>trim\<close> strips: TAB, LF, VT, FF, CR, SP and NBSP\<close>
  "isWhiteSpace c = (c \<in> set [CHR 0x09, CHR 0x0A, CHR 0x0B, CHR 0x0C, CHR 0x0D, CHR 0x20, CHR 0xA0])"

definition trim :: "string \<Rightarrow> string" where
  "trim s = rev (dropWhile isWhiteSpace (rev (dropWhile isWhiteSpace s)))"

definition startsWith :: "string \<Rightarrow> string \<Rightarrow> bool" where
  "startsWith s p = (take (length p) s = p)"

fun includes_str :: "string \<Rightarrow> string \<Rightarrow> bool" where
  "includes_str [] p = (p = [])"
| "includes_str (c # cs) p = (startsWith (c # cs) p \<or> includes_str cs p)"

fun split_on :: "char \<Rightarrow> string \<Rightarrow> string list" where
  \<comment> \<open>\<open>s.split(d)\<close> for a one-character separator; \<open>"".split(d)\<close> is \<open>[""]\<close>\<close>
  "split_on d [] = [[]]"
| "split_on d (c # cs) =
     (if c = d then [] # split_on d cs
      else (case split_on d cs of f # fs \<Rightarrow> (c # f) # fs | [] \<Rightarrow> [[c]]))"

fun replaceAll :: "string \<Rightarrow> string \<Rightarrow> string \<Rightarrow> string" where
  \<comment> \<open>\<open>s.replace(/p/g, r)\<close> for a literal, non-empty pattern \<open>p\<close>\<close>
  "replaceAll p r [] = []"
| "replaceAll p r (c # cs) =
     (if startsWith (c # cs) p then r @ replaceAll p r (drop (length p - 1) cs)
      else c # replaceAll p r cs)"

fun replaceFirst :: "string \<Rightarrow> string \<Rightarrow> string \<Rightarrow> string" where
  \<comment> \<open>\<open>s.replace(p, r)\<close> for a string pattern: the first occurrence only\<close>
  "replaceFirst p r [] = (if p = [] then r else [])"
| "replaceFirst p r (c # cs) =
     (if startsWith (c # cs) p then r @ drop (length p) (c # cs)
      else c # replaceFirst p r cs)"

definition substring :: "string \<Rightarrow> nat \<Rightarrow> nat \<Rightarrow> string" where
  \<comment> \<open>\<open>s.substring(a, b)\<close>, which swaps its arguments when \<open>a > b\<close>\<close>
  "substring s a b = take (max a b - min a b) (drop (min a b) s)"

section \<open>The link pattern\<close>

text \<open>
  \<open>linkRegex = /\[(.*?)\]\((.*?)\)/g\<close>. Both groups are lazy and \<open>.\<close> matches no line
  terminator, so a match attempt at a \<open>[\<close> extends the label one character at a time and,
  at every \<open>](\<close>, extends the url one character at a time up to the first \<open>)\<close>.
\<close>

definition isLineTerminator :: "char \<Rightarrow> bool" where
  "isLineTerminator c = (c = CHR 0x0A \<or> c = CHR 0x0D)"

fun lazy_url :: "string \<Rightarrow> (string \<times> string) option" where
  \<comment> \<open>\<open>(.*?)\)\<close> at the head: the url and what follows the closing parenthesis\<close>
  "lazy_url [] = None"
| "lazy_url (c # cs) =
     (if c = CHR '')'' then Some ([], cs)
      else if isLineTerminator c then None
      else map_option (\<lambda>(u, r). (c # u, r)) (lazy_url cs))"

fun lazy_label :: "string \<Rightarrow> (string \<times> string \<times> string) option" where
  \<comment> \<open>\<open>(.*?)\]\((.*?)\)\<close> at the head: label, url, rest\<close>
  "lazy_label [] = None"
| "lazy_label (c # cs) =
     (case (if startsWith (c # cs) '']('' then lazy_url (drop 2 (c # cs)) else None) of
        Some (u, r) \<Rightarrow> Some ([], u, r)
      | None \<Rightarrow>
          if isLineTerminator c then None
          else map_option (\<lambda>(l, u, r). (c # l, u, r)) (lazy_label cs))"

definition match_at :: "string \<Rightarrow> (string \<times> string \<times> string) option" where
  \<comment> \<open>the whole pattern matched at the head of the string\<close>
  "match_at s = (case s of [] \<Rightarrow> None | c # cs \<Rightarrow> if c = CHR ''['' then lazy_label cs else None)"

fun search :: "string \<Rightarrow> (string \<times> string \<times> string \<times> string) option" where
  \<comment> \<open>the leftmost match: text before it, label, url, text after it\<close>
  "search [] = None"
| "search (c # cs) =
     (case match_at (c # cs) of
        Some (l, u, r) \<Rightarrow> Some ([], l, u, r)
      | None \<Rightarrow> map_option (\<lambda>(p, l, u, r). (c # p, l, u, r)) (search cs))"

record RegExpMatch =
  index :: nat
  group1 :: string
  group2 :: string

definition linkRegex_exec :: "string \<Rightarrow> nat \<Rightarrow> RegExpMatch option \<times> nat" where
  \<comment> \<open>\<open>linkRegex.exec(text)\<close> with the regex's \<open>lastIndex\<close> passed in and returned: the
      search starts at \<open>lastIndex\<close>; a match leaves \<open>lastIndex\<close> at its end, a failure at 0\<close>
  "linkRegex_exec text lastIndex =
     (if lastIndex > length text then (None, 0)
      else (case search (drop lastIndex text) of
              None \<Rightarrow> (None, 0)
            | Some (p, l, u, r) \<Rightarrow>
                (Some \<lparr>index = lastIndex + length p, group1 = l, group2 = u\<rparr>,
                 length text - length r)))"

lemma lazy_url_decomp: "lazy_url s = Some (u, r) \<Longrightarrow> s = u @ CHR '')'' # r"
  by (induction s arbitrary: u) (auto split: if_splits)

lemma lazy_label_decomp:
  "lazy_label s = Some (l, u, r) \<Longrightarrow> s = l @ '']('' @ u @ CHR '')'' # r"
proof (induction s arbitrary: l)
  case Nil
  then show ?case by simp
next
  case (Cons c cs)
  show ?case
  proof (cases "if startsWith (c # cs) '']('' then lazy_url (drop 2 (c # cs)) else None")
    case None
    with Cons.prems obtain l' where l: "l = c # l'" and rec: "lazy_label cs = Some (l', u, r)"
      by (auto split: if_splits)
    from Cons.IH [OF rec] l show ?thesis by simp
  next
    case (Some ur)
    with Cons.prems have l: "l = []" and sw: "startsWith (c # cs) ''](''"
      and lu: "lazy_url (drop 2 (c # cs)) = Some (u, r)"
      by (auto split: if_splits prod.splits)
    from sw have "c # cs = '']('' @ drop 2 (c # cs)"
      by (metis append_take_drop_id length_Cons list.size(3) numeral_2_eq_2 startsWith_def)
    with lazy_url_decomp [OF lu] l show ?thesis by simp
  qed
qed

lemma search_decomp:
  "search s = Some (p, l, u, r) \<Longrightarrow> s = p @ CHR ''['' # l @ '']('' @ u @ CHR '')'' # r"
proof (induction s arbitrary: p)
  case Nil
  then show ?case by simp
next
  case (Cons c cs)
  show ?case
  proof (cases "match_at (c # cs)")
    case None
    with Cons.prems obtain p' where p: "p = c # p'" and rec: "search cs = Some (p', l, u, r)"
      by auto
    from Cons.IH [OF rec] p show ?thesis by simp
  next
    case (Some lur)
    with Cons.prems have p: "p = []" and m: "match_at (c # cs) = Some (l, u, r)"
      by (auto split: prod.splits)
    from m have "c = CHR ''[''" and "lazy_label cs = Some (l, u, r)"
      by (auto simp: match_at_def split: if_splits)
    with lazy_label_decomp p show ?thesis by simp
  qed
qed

lemma search_rest_shorter: "search s = Some (p, l, u, r) \<Longrightarrow> length r < length s"
  by (drule search_decomp) simp


section \<open>The Word exporter\<close>

text \<open>
  The nodes of the \<open>docx\<close> document the exporter builds. A \<open>TextRun\<close> holds its text; an
  \<open>ExternalHyperlink\<close> holds the text of its one styled child run and its \<open>link\<close>.
\<close>

datatype run = TextRun string | ExternalHyperlink string string

datatype HeadingLevel = TITLE | HEADING_1 | HEADING_2 | HEADING_3

record TableCell =
  cell_children :: "run list"  \<comment> \<open>the children of the cell's one paragraph\<close>
  width_of :: nat  \<comment> \<open>the cell's width is \<open>100 / width_of\<close> percent\<close>
  fill :: string

datatype docx_node =
    ParagraphText string "HeadingLevel option"
      \<comment> \<open>\<open>new Paragraph({text, heading})\<close>\<close>
  | Paragraph "run list" "HeadingLevel option" "nat option" "nat option"
      \<comment> \<open>\<open>new Paragraph({children, heading, spacing: {before, after}})\<close>\<close>
  | Table "TableCell list list"

function docx_loop :: "string \<Rightarrow> nat \<Rightarrow> nat \<Rightarrow> run list \<Rightarrow> run list \<times> nat \<times> nat" where
  \<comment> \<open>the \<open>while ((match = linkRegex.exec(text)) !== null)\<close> loop: the local \<open>lastIndex\<close>,
      the regex's \<open>lastIndex\<close> and \<open>children\<close>\<close>
  "docx_loop text lastIndex re children =
     (case linkRegex_exec text re of
        (None, re') \<Rightarrow> (children, lastIndex, re')
      | (Some m, re') \<Rightarrow>
          docx_loop text re' re'
            ((if index m > lastIndex
              then children @ [TextRun (substring text lastIndex (index m))]
              else children)
             @ [ExternalHyperlink (group1 m) (group2 m)]))"
  by pat_completeness auto
termination
  by (relation "measure (\<lambda>(text, lastIndex, re, children). length text - re)")
    (auto simp: linkRegex_exec_def split: if_splits option.splits dest!: search_rest_shorter)

definition parseMarkdownToDocxChildren :: "string \<Rightarrow> nat \<Rightarrow> run list \<times> nat" where
  \<comment> \<open>takes and returns \<open>linkRegex.lastIndex\<close>, the one piece of state the module shares
      between calls; the function resets it before its loop\<close>
  "parseMarkdownToDocxChildren text re0 =
     (case docx_loop text 0 0 [] of
        (children, lastIndex, re) \<Rightarrow>
          (if lastIndex < length text then children @ [TextRun (substring text lastIndex (length text))]
           else children, re))"


record word_state =
  children :: "docx_node list"
  inTableW :: bool
  tableRows :: "TableCell list list"
  lastIndexW :: nat  \<comment> \<open>\<open>linkRegex.lastIndex\<close>\<close>

definition flushTableW :: "word_state \<Rightarrow> word_state" where
  "flushTableW s =
     (if tableRows s \<noteq> []
      then s\<lparr>children := children s @ [Table (tableRows s), ParagraphText [] None],
             inTableW := False, tableRows := []\<rparr>
      else s\<lparr>inTableW := False, tableRows := []\<rparr>)"

definition pipe_fields :: "string \<Rightarrow> string list" where
  \<comment> \<open>\<open>line.split('|').filter(c => c.trim() !== '')\<close>, as both exporters write it\<close>
  "pipe_fields line = filter (\<lambda>c. trim c \<noteq> []) (split_on CHR ''|'' line)"

definition cleanText :: "string \<Rightarrow> string" where
  \<comment> \<open>\<open>text.replace(/\*\*/g, '').replace(/<br>/g, '\n')\<close>\<close>
  "cleanText t = replaceAll ''<br>'' [CHR 0x0A] (replaceAll ''**'' [] t)"

fun rowCells :: "nat \<Rightarrow> string \<Rightarrow> string list \<Rightarrow> nat \<Rightarrow> TableCell list \<times> nat" where
  \<comment> \<open>\<open>cells.map(text => new TableCell(...))\<close>, the calls in order; \<open>n\<close> is \<open>cells.length\<close>\<close>
  "rowCells n shade [] re = ([], re)"
| "rowCells n shade (t # ts) re =
     (case parseMarkdownToDocxChildren (cleanText t) re of
        (ch, re1) \<Rightarrow>
          (case rowCells n shade ts re1 of
             (cs, re2) \<Rightarrow> (\<lparr>cell_children = ch, width_of = n, fill = shade\<rparr> # cs, re2)))"

definition heading_paragraph ::
  "HeadingLevel \<Rightarrow> nat \<Rightarrow> nat \<Rightarrow> string \<Rightarrow> word_state \<Rightarrow> word_state" where
  \<comment> \<open>the body shared by the three heading branches\<close>
  "heading_paragraph h before after t s =
     (let s1 = (if inTableW s then flushTableW s else s)
      in (case parseMarkdownToDocxChildren t (lastIndexW s1) of
            (ch, re) \<Rightarrow>
              s1\<lparr>children := children s1 @ [Paragraph ch (Some h) (Some before) (Some after)],
                  lastIndexW := re\<rparr>))"

definition word_line :: "word_state \<Rightarrow> string \<Rightarrow> word_state" where
  \<comment> \<open>one iteration of the \<open>for\<close> loop of \<open>exportToWord\<close>\<close>
  "word_line s raw =
     (let line = trim raw in
      if startsWith line ''### '' then
        heading_paragraph HEADING_3 200 100 (replaceFirst ''### '' [] line) s
      else if startsWith line ''## '' then
        heading_paragraph HEADING_2 300 150 (replaceFirst ''## '' [] line) s
      else if startsWith line ''# '' then
        heading_paragraph HEADING_1 400 200 (replaceFirst ''# '' [] line) s
      else if startsWith line ''|'' then
        (let s1 = (if \<not> inTableW s then s\<lparr>inTableW := True, tableRows := []\<rparr> else s) in
         if includes_str line ''---'' then s1
         else
           (let cells = map trim (pipe_fields line) in
            case rowCells (length cells) (if tableRows s1 = [] then ''F1F5F9'' else ''FFFFFF'')
                   cells (lastIndexW s1) of
              (row, re) \<Rightarrow> s1\<lparr>tableRows := tableRows s1 @ [row], lastIndexW := re\<rparr>))
      else
        (let s1 = (if inTableW s then flushTableW s else s) in
         if length line > 0 then
           (case parseMarkdownToDocxChildren line (lastIndexW s1) of
              (ch, re) \<Rightarrow>
                s1\<lparr>children := children s1 @ [Paragraph ch None None (Some 120)],
                    lastIndexW := re\<rparr>)
         else s1))"

definition word_init :: "nat \<Rightarrow> word_state" where
  "word_init re0 =
     \<lparr>children = [ParagraphText ''DocuExtract AI Report'' (Some TITLE)],
      inTableW = False, tableRows = [], lastIndexW = re0\<rparr>"

definition exportToWord :: "string \<Rightarrow> string \<Rightarrow> nat \<Rightarrow> (docx_node list \<times> string) \<times> nat" where
  \<comment> \<open>the children of the document's one section and the name it is saved under; the
      last component is \<open>linkRegex.lastIndex\<close> after the call\<close>
  "exportToWord content filename re0 =
     (let s = foldl word_line (word_init re0) (split_on CHR 0x0A content);
          s' = (if inTableW s then flushTableW s else s)
      in ((children s', filename @ ''.docx''), lastIndexW s'))"


section \<open>The PDF exporter\<close>

function replace_links :: "string \<Rightarrow> string" where
  \<comment> \<open>\<open>md.replace(linkRegex, '$1')\<close>: every match replaced by its label\<close>
  "replace_links s =
     (case search s of None \<Rightarrow> s | Some (p, l, u, r) \<Rightarrow> p @ l @ replace_links r)"
  by pat_completeness auto
termination
  by (relation "measure length") (auto dest!: search_rest_shorter)

definition cleanMarkdown :: "string \<Rightarrow> nat \<Rightarrow> string \<times> nat" where
  \<comment> \<open>a \<open>replace\<close> with a global regex starts from \<open>lastIndex = 0\<close> and leaves it at 0\<close>
  "cleanMarkdown md re0 =
     (replaceAll ''<br>'' [CHR 0x0A]
        (replaceAll [CHR 0x60] []
           (replaceAll ''#'' []
              (replaceAll ''*'' []
                 (replaceAll ''**'' [] (replace_links md))))), 0)"

function regex_split :: "string \<Rightarrow> string list" where
  \<comment> \<open>\<open>s.split(linkRegex)\<close> for a non-empty \<open>s\<close>: the pieces between the matches, each
      match's two groups spliced in; it works on a copy of the regex\<close>
  "regex_split s =
     (case search s of None \<Rightarrow> [s] | Some (p, l, u, r) \<Rightarrow> p # l # u # regex_split r)"
  by pat_completeness auto
termination
  by (relation "measure length") (auto dest!: search_rest_shorter)

text \<open>
  \<open>/^\[(.*?)\]\((.*?)\)$/\<close>, the pattern of \<open>parseCellForPDF\<close>: the same two lazy groups,
  anchored at both ends of the cell.
\<close>

fun lazy_url_end :: "string \<Rightarrow> string option" where
  "lazy_url_end [] = None"
| "lazy_url_end (c # cs) =
     (if c = CHR '')'' \<and> cs = [] then Some []
      else if isLineTerminator c then None
      else map_option ((#) c) (lazy_url_end cs))"

fun lazy_label_end :: "string \<Rightarrow> (string \<times> string) option" where
  "lazy_label_end [] = None"
| "lazy_label_end (c # cs) =
     (case (if startsWith (c # cs) '']('' then lazy_url_end (drop 2 (c # cs)) else None) of
        Some u \<Rightarrow> Some ([], u)
      | None \<Rightarrow>
          if isLineTerminator c then None
          else map_option (\<lambda>(l, u). (c # l, u)) (lazy_label_end cs))"

definition match_whole_cell :: "string \<Rightarrow> (string \<times> string) option" where
  "match_whole_cell s =
     (case s of [] \<Rightarrow> None | c # cs \<Rightarrow> if c = CHR ''['' then lazy_label_end cs else None)"

datatype PDFCell = CellString string | PDFCellObj string string
  \<comment> \<open>\<open>string | PDFCellObj\<close>, the object with its \<open>content\<close> and its \<open>link\<close>\<close>

definition parseCellForPDF :: "string \<Rightarrow> PDFCell" where
  "parseCellForPDF t =
     (case match_whole_cell t of
        Some (l, u) \<Rightarrow> PDFCellObj l u
      | None \<Rightarrow> CellString (replaceAll ''<br>'' [CHR 0x0A] (replaceAll ''**'' [] t)))"

definition clickable :: "PDFCell \<Rightarrow> bool" where
  \<comment> \<open>the test of \<open>didDrawCell\<close> and \<open>willDrawCell\<close>:
      \<open>raw && typeof raw === 'object' && raw.link\<close>\<close>
  "clickable c = (case c of CellString t \<Rightarrow> False | PDFCellObj l u \<Rightarrow> u \<noteq> [])"

text \<open>
  The calls the exporter makes on the \<open>jsPDF\<close> document, in order. What the library
  computes from fonts and page geometry is a parameter: the page width, the width of a
  text, the wrapping of a text to a width, and the lower edge \<open>finalY\<close> of a table drawn
  from \<open>startY\<close>. Coordinates are rationals.
\<close>

datatype pdf_op =
    SetFont string string
  | SetFontSize nat
  | SetTextColor nat nat nat
  | SetDrawColor nat nat nat
  | Line rat rat rat rat
  | Text string rat rat
  | TextLines "string list" rat rat
  | TextWithLink string rat rat string
  | AddPage
  | AutoTable rat "string list" "PDFCell list list"
  | Save string

record jsPDF =
  pageWidth :: rat
  getTextWidth :: "string \<Rightarrow> rat"
  splitTextToSize :: "string \<Rightarrow> rat \<Rightarrow> string list"
  finalY :: "rat \<Rightarrow> string list \<Rightarrow> PDFCell list list \<Rightarrow> rat"

record pdf_state =
  y :: rat
  inTable :: bool
  tableHeader :: "string list"
  tableBody :: "PDFCell list list"
  ops :: "pdf_op list"
  lastIndex :: nat  \<comment> \<open>\<open>linkRegex.lastIndex\<close>\<close>

definition margin :: rat where
  "margin = 14"

definition flushTable :: "jsPDF \<Rightarrow> pdf_state \<Rightarrow> pdf_state" where
  "flushTable doc s =
     (if length (tableHeader s) > 0
      then s\<lparr>ops := ops s @ [AutoTable (y s) (tableHeader s) (tableBody s)],
             y := finalY doc (y s) (tableHeader s) (tableBody s) + 10,
             tableHeader := [], tableBody := [], inTable := False\<rparr>
      else s\<lparr>inTable := False\<rparr>)"

function link_loop ::
  "jsPDF \<Rightarrow> string \<Rightarrow> rat \<Rightarrow> rat \<Rightarrow> nat \<Rightarrow> nat \<Rightarrow> pdf_op list \<Rightarrow> rat \<times> nat \<times> nat \<times> pdf_op list" where
  \<comment> \<open>the \<open>while ((match = linkRegex.exec(trimmed)) !== null)\<close> loop of the paragraph
      branch: \<open>cursorX\<close>, \<open>lastIdx\<close>, the regex's \<open>lastIndex\<close> and the calls made\<close>
  "link_loop doc trimmed yv cursorX lastIdx re out =
     (case linkRegex_exec trimmed re of
        (None, re') \<Rightarrow> (cursorX, lastIdx, re', out)
      | (Some m, re') \<Rightarrow>
          (let preText = substring trimmed lastIdx (index m);
               out1 = (if preText \<noteq> []
                       then out @ [SetTextColor 71 85 105, Text preText cursorX yv] else out);
               x1 = (if preText \<noteq> [] then cursorX + getTextWidth doc preText else cursorX)
           in link_loop doc trimmed yv (x1 + getTextWidth doc (group1 m)) re' re'
                (out1 @ [SetTextColor 0 0 255, TextWithLink (group1 m) x1 yv (group2 m)])))"
  by pat_completeness auto
termination
  by (relation "measure (\<lambda>(doc, trimmed, yv, cursorX, lastIdx, re, out). length trimmed - re)")
    (auto simp: linkRegex_exec_def split: if_splits option.splits dest!: search_rest_shorter)

definition paragraph_text :: "jsPDF \<Rightarrow> pdf_state \<Rightarrow> string \<Rightarrow> pdf_state" where
  \<comment> \<open>the branch \<open>else if (trimmed.length > 0)\<close>\<close>
  "paragraph_text doc s trimmed =
     (let s1 = s\<lparr>ops := ops s @ [SetFont ''helvetica'' ''normal'', SetFontSize 10,
                                   SetTextColor 71 85 105]\<rparr>
      in if length (regex_split trimmed) > 1 then
           (case link_loop doc trimmed (y s1) margin 0 0 (ops s1) of
              (cursorX, lastIdx, re, out) \<Rightarrow>
                s1\<lparr>ops := (if lastIdx < length trimmed
                             then out @ [SetTextColor 71 85 105,
                                         Text (substring trimmed lastIdx (length trimmed)) cursorX (y s1)]
                             else out),
                    y := y s1 + 6, lastIndex := re\<rparr>)
         else
           (case cleanMarkdown trimmed (lastIndex s1) of
              (clean, re) \<Rightarrow>
                (let textLines = splitTextToSize doc clean (pageWidth doc - margin * 2)
                 in s1\<lparr>ops := ops s1 @ [TextLines textLines margin (y s1)],
                        y := y s1 + (of_nat (length textLines) * 5 + 2), lastIndex := re\<rparr>)))"

definition standard_text :: "jsPDF \<Rightarrow> pdf_state \<Rightarrow> string \<Rightarrow> pdf_state" where
  \<comment> \<open>"Standard Text Handling": the two heading branches and the paragraph branch\<close>
  "standard_text doc s trimmed =
     (if startsWith trimmed ''# '' then
        s\<lparr>ops := ops s @ [SetFont ''helvetica'' ''bold'', SetFontSize 16, SetTextColor 30 41 59,
                           Text (replaceFirst ''# '' [] trimmed) margin (y s)],
          y := y s + 10\<rparr>
      else if startsWith trimmed ''## '' then
        s\<lparr>ops := ops s @ [SetFont ''helvetica'' ''bold'', SetFontSize 14, SetTextColor 51 65 85,
                           Text (replaceFirst ''## '' [] trimmed) margin (y s)],
          y := y s + 8\<rparr>
      else if length trimmed > 0 then paragraph_text doc s trimmed
      else s)"

definition pdf_line :: "jsPDF \<Rightarrow> pdf_state \<Rightarrow> string \<Rightarrow> pdf_state" where
  \<comment> \<open>one call of the \<open>lines.forEach\<close> callback\<close>
  "pdf_line doc s line =
     (let trimmed = trim line;
          s1 = (if y s > 270 then s\<lparr>ops := ops s @ [AddPage], y := 20\<rparr> else s)
      in if startsWith trimmed ''|'' then
           (if \<not> inTable s1 then
              s1\<lparr>inTable := True,
                  tableHeader := map (\<lambda>c. replaceAll ''**'' [] (trim c)) (pipe_fields trimmed)\<rparr>
            else if \<not> includes_str trimmed ''---'' then
              s1\<lparr>tableBody := tableBody s1 @ [map (\<lambda>c. parseCellForPDF (trim c)) (pipe_fields trimmed)]\<rparr>
            else s1)
         else standard_text doc (if inTable s1 then flushTable doc s1 else s1) trimmed)"

definition pdf_init :: "jsPDF \<Rightarrow> nat \<Rightarrow> pdf_state" where
  "pdf_init doc re0 =
     \<lparr>y = 35, inTable = False, tableHeader = [], tableBody = [],
      ops = [SetFont ''helvetica'' ''bold'', SetFontSize 20, SetTextColor 15 23 42,
             Text ''DocuExtract AI Report'' margin 20, SetDrawColor 203 213 225,
             Line margin 24 (pageWidth doc - margin) 24],
      lastIndex = re0\<rparr>"

definition exportToPDF :: "jsPDF \<Rightarrow> string \<Rightarrow> string \<Rightarrow> nat \<Rightarrow> pdf_state" where
  \<comment> \<open>the state after \<open>doc.save\<close>: the calls made, the cursor and \<open>linkRegex.lastIndex\<close>\<close>
  "exportToPDF doc content filename re0 =
     (let s = foldl (pdf_line doc) (pdf_init doc re0) (split_on CHR 0x0A content);
          s' = (if inTable s then flushTable doc s else s)
      in s'\<lparr>ops := ops s' @ [Save (filename @ ''.pdf'')]\<rparr>)"

definition pages :: "pdf_op list \<Rightarrow> nat" where
  \<comment> \<open>the pages the exporter itself has opened: the first one and one per \<open>addPage\<close>\<close>
  "pages out = 1 + length (filter (\<lambda>c. c = AddPage) out)"

section \<open>The analysis result\<close>

record ExtractedData =
  rawText :: string
  markdown :: string
  summary :: string
  detectedType :: string

definition toLowerCase :: "string \<Rightarrow> string" where
  \<comment> \<open>on code units up to 0xFF: A to Z and the accented capitals of Latin-1\<close>
  "toLowerCase s =
     map (\<lambda>c. let n = (of_char c :: nat)
              in if (65 \<le> n \<and> n \<le> 90) \<or> (192 \<le> n \<and> n \<le> 222 \<and> n \<noteq> 215)
                 then char_of (n + 32) else c) s"

fun strip_fences_markdown :: "string \<Rightarrow> string" where
  \<comment> \<open>\<open>text.replace(/```markdown/gi, '')\<close>\<close>
  "strip_fences_markdown [] = []"
| "strip_fences_markdown (c # cs) =
     (if toLowerCase (take 11 (c # cs)) = [CHR 0x60, CHR 0x60, CHR 0x60] @ ''markdown''
      then strip_fences_markdown (drop 10 cs)
      else c # strip_fences_markdown cs)"

definition analyzeContent_result :: "string option \<Rightarrow> bool \<Rightarrow> ExtractedData" where
  \<comment> \<open>what \<open>analyzeContent\<close> returns once the model has answered: \<open>response.text\<close>
      (\<open>None\<close> for \<open>undefined\<close>) and whether \<open>inputType === 'url'\<close>\<close>
  "analyzeContent_result response_text is_url =
     (let text0 = (case response_text of None \<Rightarrow> ''No content extracted.''
                   | Some t \<Rightarrow> if t = [] then ''No content extracted.'' else t);
          text = trim (replaceAll [CHR 0x60, CHR 0x60, CHR 0x60] [] (strip_fences_markdown text0));
          lowerText = toLowerCase text;
          detected =
            (if includes_str lowerText ''invoice'' \<or> includes_str lowerText ''total''
                \<or> includes_str lowerText ''bill to'' then ''Financial Document''
             else if includes_str lowerText ''|''
                \<and> (includes_str lowerText ''price'' \<or> includes_str lowerText ''product'')
             then ''Product List''
             else if is_url then ''Web Page''
             else ''General Document'')
      in \<lparr>rawText = text, markdown = text, summary = take 200 text @ ''...'',
          detectedType = detected\<rparr>)"


section \<open>Reading the output\<close>

text \<open>
  What a run shows and where it points, the run a drawing call of the PDF paragraph
  branch stands for, and the run list of a piece of text between links (the exporters
  emit none for an empty piece).
\<close>

definition run_text :: "run \<Rightarrow> string" where
  "run_text r = (case r of TextRun t \<Rightarrow> t | ExternalHyperlink l u \<Rightarrow> l)"

definition run_url :: "run \<Rightarrow> string option" where
  "run_url r = (case r of TextRun t \<Rightarrow> None | ExternalHyperlink l u \<Rightarrow> Some u)"

definition drawn_run :: "pdf_op \<Rightarrow> run option" where
  "drawn_run c = (case c of Text t x yv \<Rightarrow> Some (TextRun t)
                  | TextWithLink t x yv u \<Rightarrow> Some (ExternalHyperlink t u) | _ \<Rightarrow> None)"

definition text_run :: "string \<Rightarrow> run list" where
  "text_run t = (if t = [] then [] else [TextRun t])"


definition text_lines :: "string list \<Rightarrow> nat" where
  \<comment> \<open>the lines that are not blank\<close>
  "text_lines ls = length (filter (\<lambda>l. trim l \<noteq> []) ls)"

definition no_table_line :: "string list \<Rightarrow> bool" where
  "no_table_line ls = list_all (\<lambda>l. \<not> startsWith (trim l) ''|'') ls"

definition sample_doc :: jsPDF where
  \<comment> \<open>a page geometry to evaluate the PDF exporter on examples: every character 2 wide,
      no wrapping, table rows 10 high\<close>
  "sample_doc =
     \<lparr>pageWidth = 210, getTextWidth = (\<lambda>t. of_nat (length t) * 2),
      splitTextToSize = (\<lambda>t w. [t]),
      finalY = (\<lambda>startY h b. startY + 10 * of_nat (1 + length b))\<rparr>"

declare docx_loop.simps [simp del]
declare link_loop.simps [simp del]
declare replace_links.simps [simp del]
declare regex_split.simps [simp del]

section \<open>Properties of the exporters\<close>

subsection \<open>Both exporters on a text with one link\<close>

lemma exec_first:
  assumes "search t = Some (pre, l, u, post)"
  shows "linkRegex_exec t 0 = (Some \<lparr>index = length pre, group1 = l, group2 = u\<rparr>, length t - length post)"
  using assms by (simp add: linkRegex_exec_def)

lemma drop_suffix: "t = a @ post \<Longrightarrow> drop (length t - length post) t = post"
  by simp

lemma take_prefix: "t = pre @ b \<Longrightarrow> take (length pre) t = pre"
  by simp

lemma drop_to_rest:
  assumes "search t = Some (pre, l, u, post)"
  shows "drop (length t - length post) t = post" and "length t - length post \<le> length t"
    and "take (length pre) t = pre" and "length pre < length t - length post"
    and "(length t - length post < length t) = (post \<noteq> [])"
proof -
  from search_decomp [OF assms]
  have t: "t = (pre @ CHR ''['' # l @ '']('' @ u @ '')'') @ post"
    by simp
  from drop_suffix [OF t] show "drop (length t - length post) t = post" .
  from take_prefix [of t pre] search_decomp [OF assms] show "take (length pre) t = pre" .
  have len: "length t = length pre + length l + length u + 4 + length post"
    by (subst t) simp
  show "length t - length post \<le> length t" by simp
  from len show "length pre < length t - length post" by simp
  from len show "(length t - length post < length t) = (post \<noteq> [])" by auto
qed

lemma exec_last:
  assumes "search t = Some (pre, l, u, post)" and "search post = None"
  shows "linkRegex_exec t (length t - length post) = (None, 0)"
  using assms drop_to_rest [OF assms(1)] by (simp add: linkRegex_exec_def)

lemma docx_loop_single:
  assumes "search t = Some (pre, l, u, post)" and "search post = None"
  shows "docx_loop t 0 0 [] = (text_run pre @ [ExternalHyperlink l u], length t - length post, 0)"
proof -
  let ?e = "length t - length post"
  have "docx_loop t 0 0 [] = docx_loop t ?e ?e (text_run pre @ [ExternalHyperlink l u])"
    using drop_to_rest [OF assms(1)]
    by (subst docx_loop.simps) (simp add: exec_first [OF assms(1)] substring_def text_run_def)
  also have "\<dots> = (text_run pre @ [ExternalHyperlink l u], ?e, 0)"
    by (subst docx_loop.simps) (simp add: exec_last [OF assms])
  finally show ?thesis .
qed

lemma parse_single:
  assumes "search t = Some (pre, l, u, post)" and "search post = None"
  shows "parseMarkdownToDocxChildren t re = (text_run pre @ [ExternalHyperlink l u] @ text_run post, 0)"
  using drop_to_rest [OF assms(1)]
  by (simp add: parseMarkdownToDocxChildren_def docx_loop_single [OF assms] substring_def text_run_def)


lemma docx_loop_lastIndex: "snd (snd (docx_loop t li re ch)) = 0"
proof (induction t li re ch rule: docx_loop.induct)
  case (1 t li re ch)
  show ?case
  proof (cases "linkRegex_exec t re")
    case (Pair mo re')
    show ?thesis
    proof (cases mo)
      case None
      with Pair have "re' = 0"
        by (auto simp: linkRegex_exec_def split: if_splits option.splits)
      with Pair None show ?thesis
        by (subst docx_loop.simps) simp
    next
      case (Some m)
      from "1.IH" [OF Pair [symmetric] Some] Pair Some show ?thesis
        by (subst docx_loop.simps) simp
    qed
  qed
qed

lemma parse_lastIndex: "snd (parseMarkdownToDocxChildren t re) = 0"
  using docx_loop_lastIndex [of t 0 0 "[]"]
  by (cases "docx_loop t 0 0 []") (simp add: parseMarkdownToDocxChildren_def)

lemma parse_ambient: "parseMarkdownToDocxChildren t re = parseMarkdownToDocxChildren t 0"
  by (simp add: parseMarkdownToDocxChildren_def)

lemma link_loop_single:
  assumes "search t = Some (pre, l, u, post)" and "search post = None"
  shows "link_loop doc t yv x 0 0 out =
    ((if pre = [] then x else x + getTextWidth doc pre) + getTextWidth doc l,
     length t - length post, 0,
     out @ (if pre = [] then [] else [SetTextColor 71 85 105, Text pre x yv])
         @ [SetTextColor 0 0 255,
            TextWithLink l (if pre = [] then x else x + getTextWidth doc pre) yv u])"
proof -
  let ?e = "length t - length post"
  let ?x1 = "if pre = [] then x else x + getTextWidth doc pre"
  let ?out = "out @ (if pre = [] then [] else [SetTextColor 71 85 105, Text pre x yv])
         @ [SetTextColor 0 0 255, TextWithLink l ?x1 yv u]"
  have "link_loop doc t yv x 0 0 out = link_loop doc t yv (?x1 + getTextWidth doc l) ?e ?e ?out"
    using drop_to_rest [OF assms(1)]
    by (subst link_loop.simps) (simp add: exec_first [OF assms(1)] substring_def Let_def)
  also have "\<dots> = (?x1 + getTextWidth doc l, ?e, 0, ?out)"
    by (subst link_loop.simps) (simp add: exec_last [OF assms])
  finally show ?thesis .
qed

lemma regex_split_match: "search t = Some (pre, l, u, post) \<Longrightarrow> length (regex_split t) > 1"
  by (subst regex_split.simps) simp

lemma regex_split_no_match: "search t = None \<Longrightarrow> regex_split t = [t]"
  by (subst regex_split.simps) simp

lemma replace_links_single:
  assumes "search t = Some (pre, l, u, post)" and "search post = None"
  shows "replace_links t = pre @ l @ post"
  using assms by (subst replace_links.simps) (simp add: replace_links.simps [of post])

lemma paragraph_single:
  assumes "search t = Some (pre, l, u, post)" and "search post = None"
  shows "List.map_filter drawn_run (drop (length (ops s)) (ops (paragraph_text doc s t)))
           = text_run pre @ [ExternalHyperlink l u] @ text_run post"
  using drop_to_rest [OF assms(1)] regex_split_match [OF assms(1)]
  by (simp add: paragraph_text_def link_loop_single [OF assms] Let_def
        substring_def text_run_def drawn_run_def List.map_filter_simps)


subsection \<open>The leftmost match of a link written plainly\<close>

lemma lazy_url_shape:
  "CHR '')'' \<notin> set u \<Longrightarrow> \<forall>c\<in>set u. \<not> isLineTerminator c \<Longrightarrow>
   lazy_url (u @ CHR '')'' # r) = Some (u, r)"
  by (induction u) auto

lemma lazy_label_shape:
  "CHR '']'' \<notin> set l \<Longrightarrow> \<forall>c\<in>set l. \<not> isLineTerminator c \<Longrightarrow>
   lazy_url rest = Some (u, r) \<Longrightarrow>
   lazy_label (l @ '']('' @ rest) = Some (l, u, r)"
  by (induction l) (auto simp: startsWith_def)

lemma search_shape:
  "CHR ''['' \<notin> set pre \<Longrightarrow> lazy_label x = Some (l, u, r) \<Longrightarrow>
   search (pre @ CHR ''['' # x) = Some (pre, l, u, r)"
  by (induction pre) (auto simp: match_at_def)

lemma includes_str_append: "includes_str (a @ p @ b) p"
proof (induction a)
  case Nil
  have sw: "startsWith (p @ b) p"
    by (simp add: startsWith_def)
  show ?case
  proof (cases "p @ b")
    case Nil
    then show ?thesis by simp
  next
    case (Cons c cs)
    with sw show ?thesis by simp
  qed
next
  case (Cons x a)
  then show ?case by simp
qed

lemma search_needs_bracket_paren: "\<not> includes_str s '']('' \<Longrightarrow> search s = None"
proof (rule ccontr)
  assume n: "\<not> includes_str s ''](''" and "search s \<noteq> None"
  then obtain p l u r where "search s = Some (p, l, u, r)"
    by auto
  from search_decomp [OF this] have "s = (p @ CHR ''['' # l) @ '']('' @ (u @ CHR '')'' # r)"
    by simp
  with includes_str_append [of "p @ CHR ''['' # l" "''](''" "u @ CHR '')'' # r"] n
  show False by simp
qed

lemma search_of_shape:
  assumes "CHR ''['' \<notin> set pre"
    and "CHR '']'' \<notin> set label" and "\<forall>c\<in>set label. \<not> isLineTerminator c"
    and "CHR '')'' \<notin> set url" and "\<forall>c\<in>set url. \<not> isLineTerminator c"
  shows "search (pre @ ''['' @ label @ '']('' @ url @ '')'' @ post) = Some (pre, label, url, post)"
proof -
  from lazy_url_shape [OF assms(4,5)] have "lazy_url (url @ CHR '')'' # post) = Some (url, post)" .
  from lazy_label_shape [OF assms(2,3) this]
  have "lazy_label (label @ '']('' @ url @ CHR '')'' # post) = Some (label, url, post)" .
  from search_shape [OF assms(1) this] show ?thesis by simp
qed

subsection \<open>Prefixes, text without links, table rows\<close>

lemma startsWith_append: "startsWith t p = (\<exists>r. t = p @ r)"
  unfolding startsWith_def
  by (metis append_eq_conv_conj append_take_drop_id)

lemma exec_none: "search t = None \<Longrightarrow> linkRegex_exec t 0 = (None, 0)"
  by (simp add: linkRegex_exec_def)

lemma parse_no_link:
  assumes "search t = None"
  shows "parseMarkdownToDocxChildren t re = (text_run t, 0)"
proof -
  have "docx_loop t 0 0 [] = ([], 0, 0)"
    by (subst docx_loop.simps) (simp add: exec_none [OF assms])
  then show ?thesis
    by (simp add: parseMarkdownToDocxChildren_def substring_def text_run_def)
qed

lemma rowCells_eq:
  "rowCells n shade ts re =
     (map (\<lambda>t. \<lparr>cell_children = fst (parseMarkdownToDocxChildren (cleanText t) 0),
                 width_of = n, fill = shade\<rparr>) ts,
      if ts = [] then re else 0)"
proof (induction ts arbitrary: re)
  case Nil
  show ?case by simp
next
  case (Cons t ts)
  have p: "parseMarkdownToDocxChildren (cleanText t) re
      = (fst (parseMarkdownToDocxChildren (cleanText t) 0), 0)"
    using parse_lastIndex [of "cleanText t" re] parse_ambient [of "cleanText t" re]
    by (metis prod.collapse)
  show ?case
    by (simp add: p Cons.IH)
qed

lemma startsWith_drop: "startsWith t p \<Longrightarrow> p \<noteq> [] \<Longrightarrow> replaceFirst p [] t = drop (length p) t"
  by (cases t) (auto simp: startsWith_def)

lemma h3_strip: "startsWith t ''### '' \<Longrightarrow> replaceFirst ''### '' [] t = drop 4 t"
proof -
  assume a: "startsWith t ''### ''"
  have l: "length ''### '' = 4" by simp
  from startsWith_drop [OF a, unfolded l] show ?thesis by simp
qed

lemma h4_not_h3: "startsWith t ''#### '' \<Longrightarrow> \<not> startsWith t ''### ''"
  by (auto simp: startsWith_append)

lemma h4_not_h2: "startsWith t ''#### '' \<Longrightarrow> \<not> startsWith t ''## ''"
  by (auto simp: startsWith_append)

lemma h4_not_h1: "startsWith t ''#### '' \<Longrightarrow> \<not> startsWith t ''# ''"
  by (auto simp: startsWith_append)

lemma h4_not_pipe: "startsWith t ''#### '' \<Longrightarrow> \<not> startsWith t ''|''"
  by (auto simp: startsWith_append)

lemma h3_not_h2: "startsWith t ''### '' \<Longrightarrow> \<not> startsWith t ''## ''"
  by (auto simp: startsWith_append)

lemma h3_not_h1: "startsWith t ''### '' \<Longrightarrow> \<not> startsWith t ''# ''"
  by (auto simp: startsWith_append)

lemma h3_not_pipe: "startsWith t ''### '' \<Longrightarrow> \<not> startsWith t ''|''"
  by (auto simp: startsWith_append)

lemma startsWith_nonempty: "startsWith t p \<Longrightarrow> p \<noteq> [] \<Longrightarrow> 0 < length t"
  by (auto simp: startsWith_append)

lemma parse_pair: "parseMarkdownToDocxChildren t re = (fst (parseMarkdownToDocxChildren t 0), 0)"
  using parse_lastIndex [of t re] parse_ambient [of t re] by (metis prod.collapse)

lemma replace_links_no_match: "search t = None \<Longrightarrow> replace_links t = t"
  by (subst replace_links.simps) simp

lemmas eval_string = trim_def isWhiteSpace_def startsWith_def match_at_def isLineTerminator_def

lemmas eval_word = exportToWord_def word_init_def word_line_def heading_paragraph_def
  flushTableW_def pipe_fields_def cleanText_def rowCells_eq parse_pair [of _ "Suc _"] Let_def

lemma pipe_not_heading:
  assumes "startsWith t ''|''"
  shows "\<not> startsWith t ''### ''" and "\<not> startsWith t ''## ''" and "\<not> startsWith t ''# ''"
  using assms by (auto simp: startsWith_append)

lemma fields_filter:
  "map trim (pipe_fields line) = filter (\<lambda>c. c \<noteq> []) (map trim (split_on CHR ''|'' line))"
  by (simp add: pipe_fields_def filter_map comp_def)

lemma word_row:
  assumes "startsWith (trim raw) ''|''" and "\<not> includes_str (trim raw) ''---''"
  shows "tableRows (word_line s raw)
    = (if inTableW s then tableRows s else [])
      @ [map (\<lambda>t. \<lparr>cell_children = fst (parseMarkdownToDocxChildren (cleanText t) 0),
                    width_of = length (pipe_fields (trim raw)),
                    fill = (if (if inTableW s then tableRows s else []) = []
                            then ''F1F5F9'' else ''FFFFFF'')\<rparr>)
           (map trim (pipe_fields (trim raw)))]"
  using assms pipe_not_heading [OF assms(1)]
  by (simp add: word_line_def Let_def rowCells_eq)

lemma word_separator:
  assumes "startsWith (trim raw) ''|''" and "includes_str (trim raw) ''---''"
  shows "tableRows (word_line s raw) = (if inTableW s then tableRows s else [])"
    and "children (word_line s raw) = children s" and "inTableW (word_line s raw)"
  using assms pipe_not_heading [OF assms(1)]
  by (simp_all add: word_line_def Let_def)

lemma pdf_header:
  assumes "startsWith (trim raw) ''|''" and "\<not> inTable s"
  shows "tableHeader (pdf_line doc s raw)
      = map (\<lambda>c. replaceAll ''**'' [] (trim c)) (pipe_fields (trim raw))"
    and "tableBody (pdf_line doc s raw) = tableBody s" and "inTable (pdf_line doc s raw)"
  using assms by (simp_all add: pdf_line_def Let_def)

lemma pdf_body:
  assumes "startsWith (trim raw) ''|''" and "inTable s" and "\<not> includes_str (trim raw) ''---''"
  shows "tableBody (pdf_line doc s raw)
      = tableBody s @ [map (\<lambda>c. parseCellForPDF (trim c)) (pipe_fields (trim raw))]"
    and "tableHeader (pdf_line doc s raw) = tableHeader s" and "inTable (pdf_line doc s raw)"
  using assms by (simp_all add: pdf_line_def Let_def)

lemma pdf_separator:
  assumes "startsWith (trim raw) ''|''" and "inTable s" and "includes_str (trim raw) ''---''"
  shows "tableBody (pdf_line doc s raw) = tableBody s"
    and "tableHeader (pdf_line doc s raw) = tableHeader s"
  using assms by (simp_all add: pdf_line_def Let_def)

lemmas eval_pdf = parseCellForPDF_def match_whole_cell_def pdf_line_def pdf_init_def
  flushTable_def standard_text_def exportToPDF_def margin_def sample_doc_def

subsection \<open>The shared pattern state in the PDF exporter\<close>

lemma link_loop_lastIndex: "fst (snd (snd (link_loop doc t yv x li re out))) = 0"
proof (induction doc t yv x li re out rule: link_loop.induct)
  case (1 doc t yv x li re out)
  show ?case
  proof (cases "linkRegex_exec t re")
    case (Pair mo re')
    show ?thesis
    proof (cases mo)
      case None
      with Pair have "re' = 0"
        by (auto simp: linkRegex_exec_def split: if_splits option.splits)
      with Pair None show ?thesis
        by (subst link_loop.simps) simp
    next
      case (Some m)
      from "1.IH" [OF Pair [symmetric] Some refl refl refl] Pair Some show ?thesis
        by (subst link_loop.simps) (simp add: Let_def)
    qed
  qed
qed

lemma paragraph_text_ambient:
  "(paragraph_text doc (s\<lparr>lastIndex := r\<rparr>) t)\<lparr>lastIndex := 0\<rparr>
     = (paragraph_text doc s t)\<lparr>lastIndex := 0\<rparr>"
  by (cases s) (simp add: paragraph_text_def cleanMarkdown_def Let_def split: prod.splits)

lemma link_loop_result:
  "link_loop doc t yv x li re out = (cursorX, lastIdx, re', out') \<Longrightarrow> re' = 0"
  using link_loop_lastIndex [of doc t yv x li re out] by simp

lemma paragraph_text_lastIndex: "lastIndex (paragraph_text doc s t) = 0"
  by (auto simp: paragraph_text_def cleanMarkdown_def Let_def split: prod.splits
      dest: link_loop_result)

lemma standard_text_ambient:
  "(standard_text doc (s\<lparr>lastIndex := r\<rparr>) t)\<lparr>lastIndex := 0\<rparr>
     = (standard_text doc s t)\<lparr>lastIndex := 0\<rparr>"
  using paragraph_text_ambient [where doc = doc and s = s and r = r and t = t]
  by (simp add: standard_text_def)

lemma standard_text_same:
  assumes "s\<lparr>lastIndex := 0\<rparr> = s'\<lparr>lastIndex := 0\<rparr>"
  shows "(standard_text doc s t)\<lparr>lastIndex := 0\<rparr> = (standard_text doc s' t)\<lparr>lastIndex := 0\<rparr>"
proof -
  from assms have "s' = s\<lparr>lastIndex := lastIndex s'\<rparr>"
    by (cases s, cases s') simp
  then show ?thesis
    using standard_text_ambient [where doc = doc and s = s and r = "lastIndex s'" and t = t]
    by simp
qed

lemma pdf_line_same:
  assumes "s\<lparr>lastIndex := 0\<rparr> = s'\<lparr>lastIndex := 0\<rparr>"
  shows "(pdf_line doc s line)\<lparr>lastIndex := 0\<rparr> = (pdf_line doc s' line)\<lparr>lastIndex := 0\<rparr>"
proof (cases "startsWith (trim line) ''|''")
  case True
  with assms show ?thesis
    by (cases s, cases s') (simp add: pdf_line_def Let_def)
next
  case False
  define pre where "pre u = (let s1 = (if y u > 270 then u\<lparr>ops := ops u @ [AddPage], y := 20\<rparr>
      else u) in if inTable s1 then flushTable doc s1 else s1)" for u
  from assms have p: "(pre s)\<lparr>lastIndex := 0\<rparr> = (pre s')\<lparr>lastIndex := 0\<rparr>"
    by (cases s, cases s') (simp add: pre_def flushTable_def Let_def)
  have "pdf_line doc u line = standard_text doc (pre u) (trim line)" for u
    using False by (simp add: pdf_line_def pre_def Let_def)
  with standard_text_same [OF p] show ?thesis
    by simp
qed

lemma foldl_pdf_line_same:
  "s\<lparr>lastIndex := 0\<rparr> = s'\<lparr>lastIndex := 0\<rparr> \<Longrightarrow>
   (foldl (pdf_line doc) s ls)\<lparr>lastIndex := 0\<rparr> = (foldl (pdf_line doc) s' ls)\<lparr>lastIndex := 0\<rparr>"
proof (induction ls arbitrary: s s')
  case Nil
  then show ?case by simp
next
  case (Cons l ls)
  from Cons.IH [OF pdf_line_same [OF Cons.prems]] show ?case by simp
qed

lemma body_rows:
  "inTable s \<Longrightarrow> \<not> y s > 270 \<Longrightarrow>
   foldl (pdf_line doc) s (replicate n ''| 1 |'')
     = s\<lparr>tableBody := tableBody s @ replicate n [CellString ''1'']\<rparr>"
proof (induction n arbitrary: s)
  case 0
  show ?case by simp
next
  case (Suc n)
  have l: "pdf_line doc s ''| 1 |'' = s\<lparr>tableBody := tableBody s @ [[CellString ''1'']]\<rparr>"
    using Suc.prems
    by (simp add: pdf_line_def Let_def eval_string pipe_fields_def parseCellForPDF_def
        match_whole_cell_def)
  have "foldl (pdf_line doc) s (replicate (Suc n) ''| 1 |'')
      = foldl (pdf_line doc) (pdf_line doc s ''| 1 |'') (replicate n ''| 1 |'')"
    by simp
  also have "\<dots> = (s\<lparr>tableBody := tableBody s @ [[CellString ''1'']]\<rparr>)
      \<lparr>tableBody := tableBody (s\<lparr>tableBody := tableBody s @ [[CellString ''1'']]\<rparr>)
         @ replicate n [CellString ''1'']\<rparr>"
    unfolding l using Suc.prems by (intro Suc.IH) simp_all
  also have "\<dots> = s\<lparr>tableBody := tableBody s @ replicate (Suc n) [CellString ''1'']\<rparr>"
    by simp
  finally show ?case .
qed

subsection \<open>Page breaks on input without tables\<close>

text \<open>
  On lines that are not table lines the cursor is tested before every drawing and each
  line that is not blank moves it down by 2 at least: from the start at 35, an input of
  119 such lines has passed 270 before its last line is handled, and a page is added.
\<close>

lemma link_loop_pages:
  "pages (snd (snd (snd (link_loop doc t yv x li re out)))) = pages out"
proof (induction doc t yv x li re out rule: link_loop.induct)
  case (1 doc t yv x li re out)
  show ?case
  proof (cases "linkRegex_exec t re")
    case (Pair mo re')
    show ?thesis
    proof (cases mo)
      case None
      with Pair show ?thesis
        by (subst link_loop.simps) simp
    next
      case (Some m)
      from "1.IH" [OF Pair [symmetric] Some refl refl refl] Pair Some show ?thesis
        by (subst link_loop.simps) (simp add: Let_def pages_def)
    qed
  qed
qed

lemma link_loop_pages_result:
  "link_loop doc t yv x li re out = (cursorX, lastIdx, re', out') \<Longrightarrow> pages out' = pages out"
  using link_loop_pages [of doc t yv x li re out] by simp

lemma standard_text_no_page:
  "pages (ops (standard_text doc s t)) = pages (ops s)"
  by (auto simp: standard_text_def paragraph_text_def cleanMarkdown_def Let_def pages_def
      split: prod.splits dest!: link_loop_pages_result)

lemma standard_text_inTable: "inTable (standard_text doc s t) = inTable s"
  by (auto simp: standard_text_def paragraph_text_def cleanMarkdown_def Let_def
      split: prod.splits)

lemma standard_text_blank: "t = [] \<Longrightarrow> standard_text doc s t = s"
  by (simp add: standard_text_def startsWith_def)

lemma standard_text_advance: "t \<noteq> [] \<Longrightarrow> y s + 2 \<le> y (standard_text doc s t)"
  by (auto simp: standard_text_def paragraph_text_def cleanMarkdown_def Let_def
      split: prod.splits)


lemma pdf_line_text:
  assumes "\<not> startsWith (trim l) ''|''" and "\<not> inTable s"
  shows "pdf_line doc s l
    = standard_text doc (if y s > 270 then s\<lparr>ops := ops s @ [AddPage], y := 20\<rparr> else s) (trim l)"
  using assms by (simp add: pdf_line_def Let_def)

lemma pdf_line_text_inTable:
  assumes "\<not> startsWith (trim l) ''|''" and "\<not> inTable s"
  shows "\<not> inTable (pdf_line doc s l)"
  using assms by (simp add: pdf_line_text standard_text_inTable)

lemma pdf_line_text_pages:
  assumes "\<not> startsWith (trim l) ''|''" and "\<not> inTable s"
  shows "pages (ops (pdf_line doc s l)) = (if y s > 270 then pages (ops s) + 1 else pages (ops s))"
  using assms by (simp add: pdf_line_text standard_text_no_page) (simp add: pages_def)

lemma pdf_line_text_y:
  assumes "\<not> startsWith (trim l) ''|''" and "\<not> inTable s" and "\<not> y s > 270"
  shows "trim l = [] \<Longrightarrow> pdf_line doc s l = s" and "trim l \<noteq> [] \<Longrightarrow> y s + 2 \<le> y (pdf_line doc s l)"
  using assms standard_text_advance [of "trim l" s doc]
  by (simp_all add: pdf_line_text standard_text_blank)

lemma foldl_text_pages_mono:
  "no_table_line ls \<Longrightarrow> \<not> inTable s \<Longrightarrow>
   pages (ops s) \<le> pages (ops (foldl (pdf_line doc) s ls))"
proof (induction ls arbitrary: s)
  case Nil
  show ?case by simp
next
  case (Cons l ls)
  from Cons.prems have l: "\<not> startsWith (trim l) ''|''" and ls: "no_table_line ls"
    by (simp_all add: no_table_line_def)
  from Cons.IH [OF ls pdf_line_text_inTable [OF l Cons.prems(2), of doc]]
    pdf_line_text_pages [OF l Cons.prems(2), of doc]
  show ?case by (simp split: if_splits)
qed

lemma foldl_text_breaks_page:
  "no_table_line ls \<Longrightarrow> \<not> inTable s \<Longrightarrow> 1 \<le> text_lines ls \<Longrightarrow>
   272 < y s + 2 * of_nat (text_lines ls) \<Longrightarrow>
   pages (ops s) < pages (ops (foldl (pdf_line doc) s ls))"
proof (induction ls arbitrary: s)
  case Nil
  then show ?case by (simp add: text_lines_def)
next
  case (Cons l ls)
  from Cons.prems have l: "\<not> startsWith (trim l) ''|''" and ls: "no_table_line ls"
    by (simp_all add: no_table_line_def)
  note nt = pdf_line_text_inTable [OF l Cons.prems(2), of doc]
  show ?case
  proof (cases "y s > 270")
    case True
    with pdf_line_text_pages [OF l Cons.prems(2), of doc] foldl_text_pages_mono [OF ls nt, of doc]
    show ?thesis by simp
  next
    case False
    note same = pdf_line_text_pages [OF l Cons.prems(2), of doc]
    show ?thesis
    proof (cases "trim l = []")
      case True
      with pdf_line_text_y(1) [OF l Cons.prems(2) False, of doc] Cons.prems
      have "pdf_line doc s l = s" and "1 \<le> text_lines ls"
        and "272 < y s + 2 * of_nat (text_lines ls)"
        by (simp_all add: text_lines_def)
      with Cons.IH [OF ls Cons.prems(2)] show ?thesis by simp
    next
      case nb: False
      from nb have n: "text_lines (l # ls) = Suc (text_lines ls)"
        by (simp add: text_lines_def)
      from pdf_line_text_y(2) [OF l Cons.prems(2) False nb, of doc]
      have adv: "y s + 2 \<le> y (pdf_line doc s l)" .
      from Cons.prems(4) n adv
      have big: "272 < y (pdf_line doc s l) + 2 * of_nat (text_lines ls)"
        by simp
      have one: "1 \<le> text_lines ls"
      proof (rule ccontr)
        assume "\<not> 1 \<le> text_lines ls"
        then have "text_lines ls = 0" by simp
        with Cons.prems(4) n False show False by simp
      qed
      from Cons.IH [OF ls nt one big] same False show ?thesis by simp
    qed
  qed
qed

lemma many_text_lines_open_second_page:
  assumes "no_table_line ls" and "119 \<le> text_lines ls"
  shows "2 \<le> pages (ops (foldl (pdf_line doc) (pdf_init doc re) ls))"
proof -
  have i: "\<not> inTable (pdf_init doc re)" "y (pdf_init doc re) = 35" "pages (ops (pdf_init doc re)) = 1"
    by (simp_all add: pdf_init_def pages_def)
  from assms(2) have "(119 :: rat) \<le> of_nat (text_lines ls)"
    by (metis of_nat_le_iff of_nat_numeral)
  then have "272 < y (pdf_init doc re) + 2 * of_nat (text_lines ls)"
    unfolding i by simp
  from foldl_text_breaks_page [OF assms(1) i(1) _ this, of doc] assms(2) i(3)
  show ?thesis by simp
qed

section \<open>Claims\<close>

subsection \<open>Headings of level 3 and 4\<close>

text \<open>
  C1, as the code has it. A line that starts with \<open>### \<close> becomes, in the Word exporter, a
  heading paragraph of level 3 holding the runs of the rest of the line. A line that
  starts with \<open>#### \<close> is no heading there: it becomes a plain paragraph holding the runs of
  the whole line, markers included. The PDF exporter has headings for \<open># \<close> and \<open>## \<close>
  only: a line starting with \<open>### \<close> or \<open>#### \<close> goes through its paragraph branch.
\<close>

theorem heading_levels_three_and_four:
  "(startsWith (trim raw) ''### '' \<longrightarrow>
      children (word_line s raw)
        = children (if inTableW s then flushTableW s else s)
          @ [Paragraph (fst (parseMarkdownToDocxChildren (drop 4 (trim raw)) 0))
               (Some HEADING_3) (Some 200) (Some 100)])
   \<and> (startsWith (trim raw) ''#### '' \<longrightarrow>
      children (word_line s raw)
        = children (if inTableW s then flushTableW s else s)
          @ [Paragraph (fst (parseMarkdownToDocxChildren (trim raw) 0)) None None (Some 120)])
   \<and> (startsWith t ''### '' \<or> startsWith t ''#### '' \<longrightarrow>
      standard_text doc p t = paragraph_text doc p t)"
proof -
  have a: "children (word_line s raw)
        = children (if inTableW s then flushTableW s else s)
          @ [Paragraph (fst (parseMarkdownToDocxChildren (drop 4 (trim raw)) 0))
               (Some HEADING_3) (Some 200) (Some 100)]"
    if "startsWith (trim raw) ''### ''"
    using that
    by (simp add: h3_strip [OF that] word_line_def heading_paragraph_def Let_def parse_pair [of _ "lastIndexW _"])
  have b: "children (word_line s raw)
        = children (if inTableW s then flushTableW s else s)
          @ [Paragraph (fst (parseMarkdownToDocxChildren (trim raw) 0)) None None (Some 120)]"
    if "startsWith (trim raw) ''#### ''"
    using h4_not_h3 [OF that] h4_not_h2 [OF that] h4_not_h1 [OF that] h4_not_pipe [OF that]
      startsWith_nonempty [OF that]
    by (simp add: word_line_def Let_def parse_pair [of _ "lastIndexW _"])
  have c: "standard_text doc p t = paragraph_text doc p t"
    if "startsWith t ''### '' \<or> startsWith t ''#### ''"
    using that h3_not_h2 [of t] h3_not_h1 [of t] h4_not_h2 [of t] h4_not_h1 [of t]
      startsWith_nonempty [of t "''### ''"] startsWith_nonempty [of t "''#### ''"]
    by (auto simp: standard_text_def)
  from a b c show ?thesis by blast
qed


text \<open>
  The claim as stated fails: the Word exporter renders \<open>#### Title\<close> as a plain paragraph
  that keeps the markers, and the PDF exporter draws \<open>### Title\<close> as paragraph text.
\<close>

theorem heading_level_four_counterexample:
  "fst (fst (exportToWord ''#### Title'' ''report'' 0))
     = [ParagraphText ''DocuExtract AI Report'' (Some TITLE),
        Paragraph [TextRun ''#### Title''] None None (Some 120)]
   \<and> ops (paragraph_text sample_doc (pdf_init sample_doc 0) ''### Title'')
     = ops (pdf_init sample_doc 0)
       @ [SetFont ''helvetica'' ''normal'', SetFontSize 10, SetTextColor 71 85 105,
          TextLines ['' Title''] 14 35]"
proof -
  have s: "search ''#### Title'' = None" "search ''### Title'' = None"
    by (simp_all add: eval_string)
  have "fst (fst (exportToWord ''#### Title'' ''report'' 0))
     = [ParagraphText ''DocuExtract AI Report'' (Some TITLE),
        Paragraph [TextRun ''#### Title''] None None (Some 120)]"
    by (simp add: eval_word eval_string parse_no_link [OF s(1)] text_run_def)
  moreover have "ops (paragraph_text sample_doc (pdf_init sample_doc 0) ''### Title'')
     = ops (pdf_init sample_doc 0)
       @ [SetFont ''helvetica'' ''normal'', SetFontSize 10, SetTextColor 71 85 105,
          TextLines ['' Title''] 14 35]"
    by (simp add: paragraph_text_def regex_split_no_match [OF s(2)] cleanMarkdown_def
        replace_links_no_match [OF s(2)] startsWith_def sample_doc_def pdf_init_def
        margin_def Let_def)
  ultimately show ?thesis by simp
qed

theorem heading_levels_three_and_four_witness:
  "startsWith (trim ''### Title'') ''### ''
   \<and> children (word_line (word_init 0) ''### Title'')
     = [ParagraphText ''DocuExtract AI Report'' (Some TITLE),
        Paragraph [TextRun ''Title''] (Some HEADING_3) (Some 200) (Some 100)]
   \<and> startsWith (trim ''#### Sub'') ''#### ''
   \<and> children (word_line (word_init 0) ''#### Sub'')
     = [ParagraphText ''DocuExtract AI Report'' (Some TITLE),
        Paragraph [TextRun ''#### Sub''] None None (Some 120)]
   \<and> standard_text sample_doc (pdf_init sample_doc 0) ''### Title''
     = paragraph_text sample_doc (pdf_init sample_doc 0) ''### Title''"
proof -
  have s: "search ''Title'' = None" "search ''#### Sub'' = None"
    by (simp_all add: eval_string)
  have t: "trim ''### Title'' = ''### Title''" "trim ''#### Sub'' = ''#### Sub''"
    by (simp_all add: eval_string)
  from heading_levels_three_and_four [of "''### Title''" "word_init 0" "''### Title''" sample_doc
      "pdf_init sample_doc 0"]
    heading_levels_three_and_four [of "''#### Sub''" "word_init 0" "''### Title''" sample_doc
      "pdf_init sample_doc 0"]
  show ?thesis
    by (simp add: t startsWith_def parse_no_link [OF s(1)] parse_no_link [OF s(2)] text_run_def
        word_init_def)
qed

subsection \<open>Separator rows\<close>

text \<open>
  C2, on an input that opens a table region with a separator row. The PDF exporter
  takes the first line of a region as the header without looking for \<open>---\<close>: the
  separator row becomes the header of the table it draws. The Word exporter drops the
  row and the next line becomes its first, shaded row.
\<close>

theorem leading_separator_becomes_header:
  "ops (exportToPDF sample_doc (''| --- | --- |'' @ [CHR 0x0A] @ ''| 1 | 2 |'') ''report'' 0)
     = ops (pdf_init sample_doc 0)
       @ [AutoTable 35 [''---'', ''---''] [[CellString ''1'', CellString ''2'']],
          Save ''report.pdf'']
   \<and> fst (fst (exportToWord (''| --- | --- |'' @ [CHR 0x0A] @ ''| 1 | 2 |'') ''report'' 0))
     = [ParagraphText ''DocuExtract AI Report'' (Some TITLE),
        Table [[\<lparr>cell_children = [TextRun ''1''], width_of = 2, fill = ''F1F5F9''\<rparr>,
                \<lparr>cell_children = [TextRun ''2''], width_of = 2, fill = ''F1F5F9''\<rparr>]],
        ParagraphText [] None]"
proof -
  have s: "search ''1'' = None" "search ''2'' = None"
    by (simp_all add: eval_string)
  have "ops (exportToPDF sample_doc (''| --- | --- |'' @ [CHR 0x0A] @ ''| 1 | 2 |'') ''report'' 0)
     = ops (pdf_init sample_doc 0)
       @ [AutoTable 35 [''---'', ''---''] [[CellString ''1'', CellString ''2'']],
          Save ''report.pdf'']"
    by (simp add: eval_pdf eval_string pipe_fields_def Let_def)
  moreover have
    "fst (fst (exportToWord (''| --- | --- |'' @ [CHR 0x0A] @ ''| 1 | 2 |'') ''report'' 0))
     = [ParagraphText ''DocuExtract AI Report'' (Some TITLE),
        Table [[\<lparr>cell_children = [TextRun ''1''], width_of = 2, fill = ''F1F5F9''\<rparr>,
                \<lparr>cell_children = [TextRun ''2''], width_of = 2, fill = ''F1F5F9''\<rparr>]],
        ParagraphText [] None]"
    by (simp add: eval_word eval_string parse_no_link s text_run_def)
  ultimately show ?thesis by simp
qed

subsection \<open>Fields of a table line\<close>

text \<open>
  C3, as the code has it. Both exporters split the trimmed line on \<open>|\<close> and keep the
  fields that are not blank, trimmed: every blank field is dropped, wherever it stands, so
  the cells of a row are the non-empty trimmed fields in order. The Word row, the PDF
  body row and the PDF header are built from exactly these fields.
\<close>

theorem blank_fields_dropped_everywhere:
  "map trim (pipe_fields line) = filter (\<lambda>c. c \<noteq> []) (map trim (split_on CHR ''|'' line))
   \<and> (startsWith (trim raw) ''|'' \<and> \<not> includes_str (trim raw) ''---'' \<longrightarrow>
        map cell_children (last (tableRows (word_line s raw)))
          = map (\<lambda>c. fst (parseMarkdownToDocxChildren (cleanText c) 0))
              (filter (\<lambda>c. c \<noteq> []) (map trim (split_on CHR ''|'' (trim raw)))))
   \<and> (startsWith (trim raw) ''|'' \<and> inTable p \<and> \<not> includes_str (trim raw) ''---'' \<longrightarrow>
        tableBody (pdf_line doc p raw)
          = tableBody p
            @ [map parseCellForPDF
                 (filter (\<lambda>c. c \<noteq> []) (map trim (split_on CHR ''|'' (trim raw))))])
   \<and> (startsWith (trim raw) ''|'' \<and> \<not> inTable p \<longrightarrow>
        tableHeader (pdf_line doc p raw)
          = map (replaceAll ''**'' [])
              (filter (\<lambda>c. c \<noteq> []) (map trim (split_on CHR ''|'' (trim raw)))))"
proof -
  have f: "map trim (pipe_fields l) = filter (\<lambda>c. c \<noteq> []) (map trim (split_on CHR ''|'' l))" for l
    by (rule fields_filter)
  have w: "map cell_children (last (tableRows (word_line s raw)))
          = map (\<lambda>c. fst (parseMarkdownToDocxChildren (cleanText c) 0))
              (filter (\<lambda>c. c \<noteq> []) (map trim (split_on CHR ''|'' (trim raw))))"
    if "startsWith (trim raw) ''|''" "\<not> includes_str (trim raw) ''---''"
    unfolding word_row [OF that] f by (simp add: comp_def)
  have b: "tableBody (pdf_line doc p raw)
          = tableBody p
            @ [map parseCellForPDF
                 (filter (\<lambda>c. c \<noteq> []) (map trim (split_on CHR ''|'' (trim raw))))]"
    if "startsWith (trim raw) ''|''" "inTable p" "\<not> includes_str (trim raw) ''---''"
    unfolding pdf_body(1) [OF that] f [symmetric] by (simp add: comp_def)
  have h: "tableHeader (pdf_line doc p raw)
          = map (replaceAll ''**'' [])
              (filter (\<lambda>c. c \<noteq> []) (map trim (split_on CHR ''|'' (trim raw))))"
    if "startsWith (trim raw) ''|''" "\<not> inTable p"
    unfolding pdf_header(1) [OF that] f [symmetric] by (simp add: comp_def)
  from f w b h show ?thesis by blast
qed


text \<open>
  The claim as stated fails on its own example: \<open>| A |  | B |\<close> gives a row of two cells,
  \<open>A\<close> and \<open>B\<close>, with no empty cell between them.
\<close>

theorem interior_blank_field_counterexample:
  "fst (fst (exportToWord ''| A |  | B |'' ''report'' 0))
     = [ParagraphText ''DocuExtract AI Report'' (Some TITLE),
        Table [[\<lparr>cell_children = [TextRun ''A''], width_of = 2, fill = ''F1F5F9''\<rparr>,
                \<lparr>cell_children = [TextRun ''B''], width_of = 2, fill = ''F1F5F9''\<rparr>]],
        ParagraphText [] None]"
proof -
  have s: "search ''A'' = None" "search ''B'' = None"
    by (simp_all add: eval_string)
  show ?thesis
    by (simp add: eval_word eval_string parse_no_link [OF s(1)] parse_no_link [OF s(2)]
        text_run_def)
qed

theorem blank_fields_dropped_everywhere_witness:
  "map trim (pipe_fields ''| A |  | B |'') = [''A'', ''B'']
   \<and> map cell_children (last (tableRows (word_line (word_init 0) ''| A |  | B |'')))
       = [[TextRun ''A''], [TextRun ''B'']]
   \<and> tableHeader (pdf_line sample_doc (pdf_init sample_doc 0) ''| A |  | B |'') = [''A'', ''B'']
   \<and> tableBody (pdf_line sample_doc
                   (pdf_line sample_doc (pdf_init sample_doc 0) ''| H | I |'') ''| A |  | B |'')
       = [[CellString ''A'', CellString ''B'']]"
proof -
  have s: "search ''A'' = None" "search ''B'' = None"
    by (simp_all add: eval_string)
  have t: "trim ''| A |  | B |'' = ''| A |  | B |''" "trim '' A '' = ''A''" "trim '' B '' = ''B''"
    "trim ''  '' = []" "trim [] = []"
    by (simp_all add: eval_string)
  have h: "inTable (pdf_line sample_doc (pdf_init sample_doc 0) ''| H | I |'')"
    "tableBody (pdf_line sample_doc (pdf_init sample_doc 0) ''| H | I |'') = []"
    "\<not> inTable (pdf_init sample_doc 0)"
    by (simp_all add: eval_pdf eval_string Let_def)
  from blank_fields_dropped_everywhere [of "''| A |  | B |''" "''| A |  | B |''" "word_init 0"
      "pdf_init sample_doc 0" sample_doc]
    blank_fields_dropped_everywhere [of "''| A |  | B |''" "''| A |  | B |''" "word_init 0"
      "pdf_line sample_doc (pdf_init sample_doc 0) ''| H | I |''" sample_doc]
  show ?thesis
    by (simp add: t h startsWith_def cleanText_def parse_no_link [OF s(1)] parse_no_link [OF s(2)]
        text_run_def parseCellForPDF_def match_whole_cell_def)
qed

subsection \<open>Header cells\<close>

text \<open>
  C4, as the code has it. The Word exporter builds a cell the same way in every row, the
  first included: the runs of the cleaned field. The PDF exporter builds body cells with
  \<open>parseCellForPDF\<close>, which turns a field that is wholly one link into an object with the
  link, the clickable kind of cell when the link is not empty; its header cells are
  strings, the trimmed fields with \<open>**\<close> removed, and a string is never clickable.
\<close>

theorem header_cells_word_same_pdf_plain:
  "(startsWith (trim raw) ''|'' \<and> \<not> includes_str (trim raw) ''---'' \<longrightarrow>
      map cell_children (last (tableRows (word_line s raw)))
        = map (\<lambda>c. fst (parseMarkdownToDocxChildren (cleanText (trim c)) 0))
            (pipe_fields (trim raw)))
   \<and> (startsWith (trim raw) ''|'' \<and> \<not> inTable p \<longrightarrow>
      tableHeader (pdf_line doc p raw)
        = map (\<lambda>c. replaceAll ''**'' [] (trim c)) (pipe_fields (trim raw)))
   \<and> (startsWith (trim raw) ''|'' \<and> inTable q \<and> \<not> includes_str (trim raw) ''---'' \<longrightarrow>
      tableBody (pdf_line doc q raw)
        = tableBody q @ [map (\<lambda>c. parseCellForPDF (trim c)) (pipe_fields (trim raw))])
   \<and> (match_whole_cell c = Some (l, u) \<longrightarrow>
      parseCellForPDF c = PDFCellObj l u \<and> clickable (parseCellForPDF c) = (u \<noteq> []))
   \<and> \<not> clickable (CellString h)"
proof -
  have w: "map cell_children (last (tableRows (word_line s raw)))
        = map (\<lambda>c. fst (parseMarkdownToDocxChildren (cleanText (trim c)) 0))
            (pipe_fields (trim raw))"
    if "startsWith (trim raw) ''|''" "\<not> includes_str (trim raw) ''---''"
    unfolding word_row [OF that] by (simp add: comp_def)
  have h: "tableHeader (pdf_line doc p raw)
        = map (\<lambda>c. replaceAll ''**'' [] (trim c)) (pipe_fields (trim raw))"
    if "startsWith (trim raw) ''|''" "\<not> inTable p"
    by (rule pdf_header(1) [OF that])
  have b: "tableBody (pdf_line doc q raw)
        = tableBody q @ [map (\<lambda>c. parseCellForPDF (trim c)) (pipe_fields (trim raw))]"
    if "startsWith (trim raw) ''|''" "inTable q" "\<not> includes_str (trim raw) ''---''"
    by (rule pdf_body(1) [OF that])
  have m: "parseCellForPDF c = PDFCellObj l u \<and> clickable (parseCellForPDF c) = (u \<noteq> [])"
    if "match_whole_cell c = Some (l, u)"
    using that by (simp add: parseCellForPDF_def clickable_def)
  have n: "\<not> clickable (CellString h)"
    by (simp add: clickable_def)
  from w h b m n show ?thesis by blast
qed

text \<open>
  The claim as stated fails in the PDF exporter: the same field \<open>[A](http://x)\<close> is a link
  object in the body row and the literal text in the header row.
\<close>

theorem header_link_cell_counterexample:
  "ops (exportToPDF sample_doc (''| [A](http://x) |'' @ [CHR 0x0A] @ ''| [A](http://x) |'')
          ''report'' 0)
     = ops (pdf_init sample_doc 0)
       @ [AutoTable 35 [''[A](http://x)''] [[PDFCellObj ''A'' ''http://x'']],
          Save ''report.pdf'']"
  by (simp add: eval_pdf eval_string pipe_fields_def Let_def)

theorem header_cells_word_same_pdf_plain_witness:
  "map cell_children (last (tableRows (word_line (word_init 0) ''| [A](http://x) |'')))
       = [[ExternalHyperlink ''A'' ''http://x'']]
   \<and> tableHeader (pdf_line sample_doc (pdf_init sample_doc 0) ''| [A](http://x) |'')
       = [''[A](http://x)'']
   \<and> tableBody (pdf_line sample_doc
                   (pdf_line sample_doc (pdf_init sample_doc 0) ''| H |'') ''| [A](http://x) |'')
       = [[PDFCellObj ''A'' ''http://x'']]
   \<and> match_whole_cell ''[A](http://x)'' = Some (''A'', ''http://x'')
   \<and> clickable (parseCellForPDF ''[A](http://x)'')"
proof -
  have s: "search ''[A](http://x)'' = Some ([], ''A'', ''http://x'', [])" "search [] = None"
    by (simp_all add: eval_string)
  have t: "trim ''| [A](http://x) |'' = ''| [A](http://x) |''"
    "trim '' [A](http://x) '' = ''[A](http://x)''" "trim [] = []"
    by (simp_all add: eval_string)
  have h: "inTable (pdf_line sample_doc (pdf_init sample_doc 0) ''| H |'')"
    "tableBody (pdf_line sample_doc (pdf_init sample_doc 0) ''| H |'') = []"
    "\<not> inTable (pdf_init sample_doc 0)"
    by (simp_all add: eval_pdf eval_string Let_def)
  have m: "match_whole_cell ''[A](http://x)'' = Some (''A'', ''http://x'')"
    by (simp add: match_whole_cell_def eval_string)
  have f: "pipe_fields ''| [A](http://x) |'' = ['' [A](http://x) '']"
    by (simp add: pipe_fields_def t eval_string)
  have i: "\<not> includes_str ''| [A](http://x) |'' ''---''"
    by (simp add: startsWith_def)
  from header_cells_word_same_pdf_plain [of "''| [A](http://x) |''" "word_init 0"
      "pdf_init sample_doc 0" sample_doc
      "pdf_line sample_doc (pdf_init sample_doc 0) ''| H |''" "''[A](http://x)''" "''A''"
      "''http://x''" "''x''"]
  show ?thesis
    using m i
    by (simp add: t h f startsWith_def cleanText_def parse_single [OF s] text_run_def
        clickable_def del: includes_str.simps)
qed

subsection \<open>Text without links\<close>

text \<open>
  C5, on the paragraph line \<open>**bold**\<close>. The Word exporter hands a paragraph line to the
  extractor as it is and the extractor strips nothing: the one text run keeps the \<open>**\<close>
  markers. The two sibling paths remove them: the Word exporter cleans a table cell
  before extraction, and the PDF exporter draws the paragraph cleaned.
\<close>

theorem word_paragraph_keeps_bold_markers:
  "fst (fst (exportToWord ''**bold**'' ''report'' 0))
     = [ParagraphText ''DocuExtract AI Report'' (Some TITLE),
        Paragraph [TextRun ''**bold**''] None None (Some 120)]
   \<and> fst (fst (exportToWord ''| **bold** |'' ''report'' 0))
     = [ParagraphText ''DocuExtract AI Report'' (Some TITLE),
        Table [[\<lparr>cell_children = [TextRun ''bold''], width_of = 1, fill = ''F1F5F9''\<rparr>]],
        ParagraphText [] None]
   \<and> ops (exportToPDF sample_doc ''**bold**'' ''report'' 0)
     = ops (pdf_init sample_doc 0)
       @ [SetFont ''helvetica'' ''normal'', SetFontSize 10, SetTextColor 71 85 105,
          TextLines [''bold''] 14 35, Save ''report.pdf'']"
proof -
  have s: "search ''**bold**'' = None" "search ''bold'' = None"
    by (simp_all add: eval_string)
  have w: "fst (fst (exportToWord ''**bold**'' ''report'' 0))
     = [ParagraphText ''DocuExtract AI Report'' (Some TITLE),
        Paragraph [TextRun ''**bold**''] None None (Some 120)]"
    by (simp add: eval_word eval_string parse_no_link [OF s(1)] text_run_def)
  have c: "fst (fst (exportToWord ''| **bold** |'' ''report'' 0))
     = [ParagraphText ''DocuExtract AI Report'' (Some TITLE),
        Table [[\<lparr>cell_children = [TextRun ''bold''], width_of = 1, fill = ''F1F5F9''\<rparr>]],
        ParagraphText [] None]"
    by (simp add: eval_word eval_string parse_no_link [OF s(2)] text_run_def)
  have p: "ops (exportToPDF sample_doc ''**bold**'' ''report'' 0)
     = ops (pdf_init sample_doc 0)
       @ [SetFont ''helvetica'' ''normal'', SetFontSize 10, SetTextColor 71 85 105,
          TextLines [''bold''] 14 35, Save ''report.pdf'']"
    by (simp add: eval_pdf eval_string paragraph_text_def regex_split_no_match [OF s(1)]
        cleanMarkdown_def replace_links_no_match [OF s(1)] Let_def)
  from w c p show ?thesis by simp
qed

subsection \<open>A text with one link\<close>

text \<open>
  C6, as the code has it. Take a text \<open>pre [label](url) post\<close> where \<open>pre\<close> has no \<open>[\<close>, the
  label has no \<open>]\<close> and the url no \<open>)\<close>, neither has a line break, and \<open>](\<close> does not occur
  in \<open>post\<close>. The Word extractor returns the runs for \<open>pre\<close>, the link and \<open>post\<close> in that
  order; their contents concatenate to the visible text \<open>pre label post\<close>, which is also the
  text with the link replaced by its label; the url is the link run's; and the PDF
  paragraph branch draws the same runs in the same order.
\<close>

theorem single_link_round_trip:
  assumes "t = pre @ ''['' @ label @ '']('' @ url @ '')'' @ post"
    and "CHR ''['' \<notin> set pre"
    and "CHR '']'' \<notin> set label" and "\<forall>c\<in>set label. \<not> isLineTerminator c"
    and "CHR '')'' \<notin> set url" and "\<forall>c\<in>set url. \<not> isLineTerminator c"
    and "\<not> includes_str post ''](''"
  shows "fst (parseMarkdownToDocxChildren t re)
        = text_run pre @ [ExternalHyperlink label url] @ text_run post
    \<and> concat (map run_text (fst (parseMarkdownToDocxChildren t re))) = pre @ label @ post
    \<and> replace_links t = pre @ label @ post
    \<and> List.map_filter run_url (fst (parseMarkdownToDocxChildren t re)) = [url]
    \<and> List.map_filter drawn_run (drop (length (ops s)) (ops (paragraph_text doc s t)))
        = fst (parseMarkdownToDocxChildren t re)"
proof -
  have m: "search t = Some (pre, label, url, post)"
    unfolding assms(1) by (rule search_of_shape [OF assms(2-6)])
  have n: "search post = None"
    by (rule search_needs_bracket_paren [OF assms(7)])
  have runs: "fst (parseMarkdownToDocxChildren t re)
      = text_run pre @ [ExternalHyperlink label url] @ text_run post"
    by (simp add: parse_single [OF m n])
  have "concat (map run_text (fst (parseMarkdownToDocxChildren t re))) = pre @ label @ post"
    unfolding runs by (simp add: text_run_def run_text_def)
  moreover have "List.map_filter run_url (fst (parseMarkdownToDocxChildren t re)) = [url]"
    unfolding runs by (simp add: text_run_def run_url_def List.map_filter_simps)
  moreover have "List.map_filter drawn_run (drop (length (ops s)) (ops (paragraph_text doc s t)))
      = fst (parseMarkdownToDocxChildren t re)"
    unfolding runs by (rule paragraph_single [OF m n])
  ultimately show ?thesis
    using runs replace_links_single [OF m n] by simp
qed

text \<open>
  The claim as stated, for any text around the one link, fails: the pattern starts at the
  leftmost \<open>[\<close> and ends the url at the first \<open>)\<close>. An earlier bracket is taken into the
  label, so the run contents no longer give the visible text, and a url with a closing
  parenthesis inside is cut there.
\<close>

theorem earlier_bracket_counterexample:
  "fst (parseMarkdownToDocxChildren ''array[0] is [A](http://x)'' 0)
     = [TextRun ''array'', ExternalHyperlink ''0] is [A'' ''http://x'']
   \<and> concat (map run_text (fst (parseMarkdownToDocxChildren ''array[0] is [A](http://x)'' 0)))
     = ''array0] is [A''
   \<and> fst (parseMarkdownToDocxChildren ''[Foo](http://w/Foo_(bar))'' 0)
     = [ExternalHyperlink ''Foo'' ''http://w/Foo_(bar'', TextRun '')'']"
proof -
  have a: "search ''array[0] is [A](http://x)'' = Some (''array'', ''0] is [A'', ''http://x'', [])"
    and b: "search [] = None"
    and c: "search ''[Foo](http://w/Foo_(bar))'' = Some ([], ''Foo'', ''http://w/Foo_(bar'', '')'')"
    and d: "search '')'' = None"
    by (simp_all add: eval_string)
  show ?thesis
    by (simp add: parse_single [OF a b] parse_single [OF c d] text_run_def run_text_def)
qed

theorem single_link_round_trip_witness:
  "fst (parseMarkdownToDocxChildren ''see [A](http://x) now'' 0)
     = [TextRun ''see '', ExternalHyperlink ''A'' ''http://x'', TextRun '' now'']
   \<and> concat (map run_text (fst (parseMarkdownToDocxChildren ''see [A](http://x) now'' 0)))
     = ''see A now''
   \<and> replace_links ''see [A](http://x) now'' = ''see A now''
   \<and> List.map_filter run_url (fst (parseMarkdownToDocxChildren ''see [A](http://x) now'' 0))
     = [''http://x'']
   \<and> List.map_filter drawn_run
        (drop (length (ops (pdf_init sample_doc 0)))
          (ops (paragraph_text sample_doc (pdf_init sample_doc 0) ''see [A](http://x) now'')))
     = [TextRun ''see '', ExternalHyperlink ''A'' ''http://x'', TextRun '' now'']"
proof -
  have i: "\<not> includes_str '' now'' ''](''"
    by (simp add: startsWith_def)
  from single_link_round_trip [of "''see [A](http://x) now''" "''see ''" "''A''" "''http://x''"
      "'' now''" 0 "pdf_init sample_doc 0" sample_doc] i
  show ?thesis
    by (simp add: isLineTerminator_def text_run_def run_text_def run_url_def
        List.map_filter_simps del: includes_str.simps)
qed

subsection \<open>Rows shorter than the header\<close>

text \<open>
  C7, as the code has it. A row is buffered as it is, whatever the number of columns of the
  header. The Word exporter emits one cell per field of the row and no more, each of
  width 100 divided by the number of fields of that row; the PDF exporter appends the
  row's cells to the table body and leaves the header alone.
\<close>

theorem ragged_row_kept_as_is:
  "(startsWith (trim raw) ''|'' \<and> \<not> includes_str (trim raw) ''---'' \<and> inTableW s \<longrightarrow>
      tableRows (word_line s raw) = tableRows s @ [last (tableRows (word_line s raw))]
      \<and> length (last (tableRows (word_line s raw))) = length (pipe_fields (trim raw))
      \<and> map width_of (last (tableRows (word_line s raw)))
          = replicate (length (pipe_fields (trim raw))) (length (pipe_fields (trim raw)))
      \<and> map cell_children (last (tableRows (word_line s raw)))
          = map (\<lambda>c. fst (parseMarkdownToDocxChildren (cleanText (trim c)) 0))
              (pipe_fields (trim raw)))
   \<and> (startsWith (trim raw) ''|'' \<and> \<not> includes_str (trim raw) ''---'' \<and> inTable p \<longrightarrow>
      tableBody (pdf_line doc p raw)
        = tableBody p @ [map (\<lambda>c. parseCellForPDF (trim c)) (pipe_fields (trim raw))]
      \<and> tableHeader (pdf_line doc p raw) = tableHeader p)"
proof -
  have w: "tableRows (word_line s raw) = tableRows s @ [last (tableRows (word_line s raw))]
      \<and> length (last (tableRows (word_line s raw))) = length (pipe_fields (trim raw))
      \<and> map width_of (last (tableRows (word_line s raw)))
          = replicate (length (pipe_fields (trim raw))) (length (pipe_fields (trim raw)))
      \<and> map cell_children (last (tableRows (word_line s raw)))
          = map (\<lambda>c. fst (parseMarkdownToDocxChildren (cleanText (trim c)) 0))
              (pipe_fields (trim raw))"
    if "startsWith (trim raw) ''|''" "\<not> includes_str (trim raw) ''---''" "inTableW s"
    unfolding word_row [OF that(1,2)] using that(3)
    by (simp add: comp_def map_replicate_const)
  have b: "tableBody (pdf_line doc p raw)
        = tableBody p @ [map (\<lambda>c. parseCellForPDF (trim c)) (pipe_fields (trim raw))]
      \<and> tableHeader (pdf_line doc p raw) = tableHeader p"
    if "startsWith (trim raw) ''|''" "\<not> includes_str (trim raw) ''---''" "inTable p"
    using pdf_body(1,2) [OF that(1) that(3) that(2)] by simp
  from w b show ?thesis by blast
qed

text \<open>
  The claim as stated fails in the Word exporter: under a header of three columns, a row of
  two fields has two cells and no empty third one, each half of the width where the
  header's are a third.
\<close>

theorem ragged_row_counterexample:
  "fst (fst (exportToWord
       (''| A | B | C |'' @ [CHR 0x0A] @ ''| --- | --- | --- |'' @ [CHR 0x0A] @ ''| 1 | 2 |'')
       ''report'' 0))
     = [ParagraphText ''DocuExtract AI Report'' (Some TITLE),
        Table [[\<lparr>cell_children = [TextRun ''A''], width_of = 3, fill = ''F1F5F9''\<rparr>,
                \<lparr>cell_children = [TextRun ''B''], width_of = 3, fill = ''F1F5F9''\<rparr>,
                \<lparr>cell_children = [TextRun ''C''], width_of = 3, fill = ''F1F5F9''\<rparr>],
               [\<lparr>cell_children = [TextRun ''1''], width_of = 2, fill = ''FFFFFF''\<rparr>,
                \<lparr>cell_children = [TextRun ''2''], width_of = 2, fill = ''FFFFFF''\<rparr>]],
        ParagraphText [] None]"
proof -
  have s: "search ''A'' = None" "search ''B'' = None" "search ''C'' = None"
    "search ''1'' = None" "search ''2'' = None"
    by (simp_all add: eval_string)
  show ?thesis
    by (simp add: eval_word eval_string parse_no_link s text_run_def)
qed


theorem ragged_row_kept_as_is_witness:
  "inTableW (word_line (word_init 0) ''| A | B | C |'')
   \<and> length (pipe_fields ''| A | B | C |'') = 3
   \<and> length (last (tableRows (word_line (word_line (word_init 0) ''| A | B | C |'') ''| 1 | 2 |'')))
       = 2
   \<and> map width_of
        (last (tableRows (word_line (word_line (word_init 0) ''| A | B | C |'') ''| 1 | 2 |'')))
       = [2, 2]
   \<and> map cell_children
        (last (tableRows (word_line (word_line (word_init 0) ''| A | B | C |'') ''| 1 | 2 |'')))
       = [[TextRun ''1''], [TextRun ''2'']]
   \<and> tableBody (pdf_line sample_doc
                   (pdf_line sample_doc (pdf_init sample_doc 0) ''| A | B | C |'') ''| 1 | 2 |'')
       = [[CellString ''1'', CellString ''2'']]
   \<and> tableHeader (pdf_line sample_doc
                     (pdf_line sample_doc (pdf_init sample_doc 0) ''| A | B | C |'') ''| 1 | 2 |'')
       = [''A'', ''B'', ''C'']"
proof -
  have s: "search ''1'' = None" "search ''2'' = None"
    by (simp_all add: eval_string)
  have t: "trim ''| 1 | 2 |'' = ''| 1 | 2 |''" "trim ''| A | B | C |'' = ''| A | B | C |''"
    by (simp_all add: eval_string)
  have f: "pipe_fields ''| 1 | 2 |'' = ['' 1 '', '' 2 '']"
    "pipe_fields ''| A | B | C |'' = ['' A '', '' B '', '' C '']"
    by (simp_all add: pipe_fields_def eval_string)
  have c: "cleanText (trim '' 1 '') = ''1''" "cleanText (trim '' 2 '') = ''2''"
    by (simp_all add: cleanText_def eval_string)
  have i: "\<not> includes_str ''| 1 | 2 |'' ''---''" "startsWith ''| 1 | 2 |'' ''|''"
    "startsWith ''| A | B | C |'' ''|''" "\<not> includes_str ''| A | B | C |'' ''---''"
    by (simp_all add: startsWith_def)
  have w: "inTableW (word_line (word_init 0) ''| A | B | C |'')"
    using i(3,4) pipe_not_heading [OF i(3)]
    by (simp add: word_line_def t Let_def rowCells_eq word_init_def del: includes_str.simps)
  have h: "inTable (pdf_line sample_doc (pdf_init sample_doc 0) ''| A | B | C |'')"
    "tableBody (pdf_line sample_doc (pdf_init sample_doc 0) ''| A | B | C |'') = []"
    "tableHeader (pdf_line sample_doc (pdf_init sample_doc 0) ''| A | B | C |'')
       = [''A'', ''B'', ''C'']"
    using i(3) by (simp_all add: pdf_line_def t f pdf_init_def Let_def eval_string)
  from ragged_row_kept_as_is [of "''| 1 | 2 |''" "word_line (word_init 0) ''| A | B | C |''"
      "pdf_line sample_doc (pdf_init sample_doc 0) ''| A | B | C |''" sample_doc]
  show ?thesis
    using w i(1,2)
    by (simp add: t f c h parse_no_link s text_run_def parseCellForPDF_def match_whole_cell_def
        cleanText_def eval_string del: includes_str.simps)
qed

subsection \<open>Page breaks\<close>

text \<open>
  C8, on a text line that ends a table. The test of the cursor against 270 comes first in
  the handling of a line, the pending table is drawn after it, and the text of the line is
  drawn below the table with no second test: when the table ends lower than 260, the
  text is drawn past the threshold on the same page.
\<close>

theorem text_after_table_skips_page_check:
  assumes "inTable s" and "tableHeader s \<noteq> []" and "\<not> y s > 270"
    and "finalY doc (y s) (tableHeader s) (tableBody s) > 260"
    and "search (trim raw) = None" and "trim raw \<noteq> []"
    and "\<not> startsWith (trim raw) ''|''" and "\<not> startsWith (trim raw) ''# ''"
    and "\<not> startsWith (trim raw) ''## ''"
  shows "ops (pdf_line doc s raw)
      = ops s @ [AutoTable (y s) (tableHeader s) (tableBody s),
          SetFont ''helvetica'' ''normal'', SetFontSize 10, SetTextColor 71 85 105,
          TextLines (splitTextToSize doc (fst (cleanMarkdown (trim raw) 0)) (pageWidth doc - 28))
            14 (finalY doc (y s) (tableHeader s) (tableBody s) + 10)]
    \<and> finalY doc (y s) (tableHeader s) (tableBody s) + 10 > 270
    \<and> pages (ops (pdf_line doc s raw)) = pages (ops s)"
proof -
  have o: "ops (pdf_line doc s raw)
      = ops s @ [AutoTable (y s) (tableHeader s) (tableBody s),
          SetFont ''helvetica'' ''normal'', SetFontSize 10, SetTextColor 71 85 105,
          TextLines (splitTextToSize doc (fst (cleanMarkdown (trim raw) 0)) (pageWidth doc - 28))
            14 (finalY doc (y s) (tableHeader s) (tableBody s) + 10)]"
    using assms
    by (simp add: pdf_line_def standard_text_def paragraph_text_def flushTable_def Let_def
        regex_split_no_match cleanMarkdown_def margin_def)
  have "pages (ops (pdf_line doc s raw)) = pages (ops s)"
    unfolding o by (simp add: pages_def)
  with o assms(4) show ?thesis by simp
qed

theorem text_after_table_skips_page_check_witness:
  "ops (foldl (pdf_line sample_doc) (pdf_init sample_doc 0)
          (''| A |'' # replicate 23 ''| 1 |'' @ [''after'']))
     = ops (pdf_init sample_doc 0)
       @ [AutoTable 35 [''A''] (replicate 23 [CellString ''1'']),
          SetFont ''helvetica'' ''normal'', SetFontSize 10, SetTextColor 71 85 105,
          TextLines [''after''] 14 285]
   \<and> pages (ops (foldl (pdf_line sample_doc) (pdf_init sample_doc 0)
          (''| A |'' # replicate 23 ''| 1 |'' @ [''after'']))) = 1"
proof -
  define s0 where "s0 = pdf_line sample_doc (pdf_init sample_doc 0) ''| A |''"
  define s where "s = foldl (pdf_line sample_doc) s0 (replicate 23 ''| 1 |'')"
  have s0: "s0 = (pdf_init sample_doc 0)\<lparr>inTable := True, tableHeader := [''A'']\<rparr>"
    by (simp add: s0_def pdf_line_def pdf_init_def Let_def eval_string pipe_fields_def)
  have s: "s = (pdf_init sample_doc 0)\<lparr>inTable := True, tableHeader := [''A''],
      tableBody := replicate 23 [CellString ''1'']\<rparr>"
    unfolding s_def by (subst body_rows) (simp_all add: s0 pdf_init_def)
  have f: "foldl (pdf_line sample_doc) (pdf_init sample_doc 0)
          (''| A |'' # replicate 23 ''| 1 |'' @ [''after'']) = pdf_line sample_doc s ''after''"
    by (simp add: s_def s0_def)
  have t: "trim ''after'' = ''after''" "search ''after'' = None"
    by (simp_all add: eval_string)
  from text_after_table_skips_page_check [of s sample_doc "''after''"]
  show ?thesis
    unfolding f
    by (simp add: s t(1) t(2) startsWith_def pdf_init_def sample_doc_def cleanMarkdown_def
        replace_links_no_match [OF t(2)] pages_def margin_def del: search.simps)
qed

subsection \<open>Two exports of the same text\<close>

text \<open>
  C9. The only state the module keeps between two exports is \<open>lastIndex\<close> of the shared
  link pattern. Whatever its value when \<open>exportToPDF\<close> starts, the calls made on the document,
  the cursor, the page breaks and the table buffers are the same: two runs on the same
  text, with the same document geometry, differ at most in the \<open>lastIndex\<close> they start
  from, and that value is never read before it is reset.
\<close>

theorem pdf_layout_ignores_ambient_state:
  "(exportToPDF doc content filename re1)\<lparr>lastIndex := 0\<rparr>
     = (exportToPDF doc content filename re2)\<lparr>lastIndex := 0\<rparr>
   \<and> ops (exportToPDF doc content filename re1) = ops (exportToPDF doc content filename re2)
   \<and> y (exportToPDF doc content filename re1) = y (exportToPDF doc content filename re2)
   \<and> pages (ops (exportToPDF doc content filename re1))
       = pages (ops (exportToPDF doc content filename re2))"
proof -
  define run where "run re = foldl (pdf_line doc) (pdf_init doc re) (split_on CHR 0x0A content)"
    for re
  have i: "pdf_init doc re = (pdf_init doc 0)\<lparr>lastIndex := re\<rparr>" for re
    by (simp add: pdf_init_def)
  have r: "(run re)\<lparr>lastIndex := 0\<rparr> = (run 0)\<lparr>lastIndex := 0\<rparr>" for re
    unfolding run_def by (rule foldl_pdf_line_same) (simp add: pdf_init_def)
  have e: "(exportToPDF doc content filename re)\<lparr>lastIndex := 0\<rparr>
      = (let s = (run re)\<lparr>lastIndex := 0\<rparr>;
             s' = (if inTable s then flushTable doc s else s)
         in s'\<lparr>ops := ops s' @ [Save (filename @ ''.pdf'')]\<rparr>)" for re
    by (simp add: exportToPDF_def run_def Let_def flushTable_def)
  have eq: "(exportToPDF doc content filename re1)\<lparr>lastIndex := 0\<rparr>
     = (exportToPDF doc content filename re2)\<lparr>lastIndex := 0\<rparr>"
    unfolding e r [of re1] r [of re2] ..
  from arg_cong [OF eq, of ops]
  have o: "ops (exportToPDF doc content filename re1) = ops (exportToPDF doc content filename re2)"
    by simp
  from arg_cong [OF eq, of y]
  have c: "y (exportToPDF doc content filename re1) = y (exportToPDF doc content filename re2)"
    by simp
  from eq o c show ?thesis
    by simp
qed


theorem pdf_layout_ignores_ambient_state_witness:
  "ops (exportToPDF sample_doc ''see [A](http://x) now'' ''report'' 0)
     = ops (exportToPDF sample_doc ''see [A](http://x) now'' ''report'' 7)
   \<and> y (exportToPDF sample_doc ''see [A](http://x) now'' ''report'' 0)
     = y (exportToPDF sample_doc ''see [A](http://x) now'' ''report'' 7)"
  using pdf_layout_ignores_ambient_state [of sample_doc "''see [A](http://x) now''" "''report''" 0 7]
  by simp

subsection \<open>The result of an analysis\<close>

text \<open>
  C10. The result of \<open>analyzeContent\<close> has its \<open>markdown\<close> equal to its \<open>rawText\<close>, and its
  \<open>summary\<close> is the first 200 characters of that text followed by \<open>...\<close>; for a text
  shorter than 200 characters the summary is the whole text followed by \<open>...\<close>.
\<close>

theorem analyzeContent_markdown_summary:
  "markdown (analyzeContent_result response_text is_url)
     = rawText (analyzeContent_result response_text is_url)
   \<and> summary (analyzeContent_result response_text is_url)
     = take 200 (rawText (analyzeContent_result response_text is_url)) @ ''...''
   \<and> (length (rawText (analyzeContent_result response_text is_url)) < 200 \<longrightarrow>
        summary (analyzeContent_result response_text is_url)
          = rawText (analyzeContent_result response_text is_url) @ ''...'')"
  by (simp add: analyzeContent_result_def Let_def)

theorem analyzeContent_markdown_summary_witness:
  "rawText (analyzeContent_result (Some ''Hello'') False) = ''Hello''
   \<and> length (rawText (analyzeContent_result (Some ''Hello'') False)) < 200
   \<and> markdown (analyzeContent_result (Some ''Hello'') False) = ''Hello''
   \<and> summary (analyzeContent_result (Some ''Hello'') False) = ''Hello...''"
proof -
  have r: "rawText (analyzeContent_result (Some ''Hello'') False) = ''Hello''"
    by (simp add: analyzeContent_result_def Let_def trim_def isWhiteSpace_def startsWith_def
        toLowerCase_def)
  from analyzeContent_markdown_summary [of "Some ''Hello''" False] r show ?thesis
    by simp
qed

end
